theory Spec2Isabelle
  imports Complex_Main "HOL-Library.Product_Lexorder"
begin

section \<open>The decoding search of Search\_Cuda.cpp\<close>

text \<open>
  A shallow embedding of \<^verbatim>\<open>src/Generators/Search_Cuda.cpp\<close>.

  \<^item> C++ \<^verbatim>\<open>int\<close> and \<^verbatim>\<open>size_t\<close> values are mathematical integers (\<^typ>\<open>int\<close>):
    the model describes runs in which no integer operation overflows (signed overflow is
    undefined in C++, so there is no wrap-around to write out).
  \<^item> \<^verbatim>\<open>ScoreType\<close> is \<^verbatim>\<open>float\<close> in the source (line 140 assigns the
    \<^verbatim>\<open>ScoreType\<close> buffer to a \<^verbatim>\<open>float*\<close>); scores are only copied, compared and
    overwritten by the code modelled here, so they are real numbers.
  \<^item> A failed \<^verbatim>\<open>assert\<close> is the error value \<open>AssertionFailed\<close>: the model is the
    program with assertions compiled in. An access outside a \<^verbatim>\<open>std::span\<close> and a division
    by zero are undefined behaviour in C++; the model makes each an error value of its own.
  \<^item> Device buffers are lists; a \<^verbatim>\<open>std::span\<close> into a buffer is a view
    (offset and size) on that list.
  \<^item> Members keep the source's names without the trailing underscore
    (\<^verbatim>\<open>params_\<close> is \<open>params\<close>), which an Isabelle name cannot end with.
\<close>

subsection \<open>Data\<close>

type_synonym ScoreType = real

definition ScoreType_lowest :: ScoreType where
  \<comment> \<open>\<^verbatim>\<open>std::numeric_limits<float>::lowest()\<close>, that is \<open>-(2 - 2^-23) * 2^127\<close>\<close>
  "ScoreType_lowest = - (2 ^ 128 - 2 ^ 104)"

datatype error = AssertionFailed | SpanOutOfRange | DivisionByZero

record SearchParams_Cuda =
  batch_size :: int
  num_beams :: int
  vocab_size :: int
  max_length :: int
  eos_token_id :: int
  pad_token_id :: int

text \<open>
  Modelled from the spec: \<^verbatim>\<open>SearchParams_Cuda::BatchBeamSize\<close> is declared in a header that is
  not among the sources; the spec's invariant is \<open>batch_beam_size = batch_size \<times> num_beams\<close>.
\<close>

definition BatchBeamSize :: "SearchParams_Cuda \<Rightarrow> int" where
  "BatchBeamSize p = batch_size p * num_beams p"

text \<open>
  Modelled from the spec: the class of \<^verbatim>\<open>sequences_\<close> (the SequenceStore) is not among the
  sources. The spec: a growable per-(batch, beam) token buffer, one ordered list of token ids
  per slot, changed only by appending one token per step, which reports the current length.
\<close>

record Sequences_Cuda =
  slots :: "int list list"
  current_length :: int

definition Sequences_GetSequenceLength :: "Sequences_Cuda \<Rightarrow> int" where
  "Sequences_GetSequenceLength q = current_length q"


record span =
  span_offset :: int
  span_size :: int

record Search_Cuda =
  params :: SearchParams_Cuda
  sequences :: Sequences_Cuda
  next_token_scores :: "ScoreType list"
  next_tokens :: "int list"
  done_cpu :: bool

subsection \<open>Spans\<close>

definition whole_span :: "'a list \<Rightarrow> span" where
  "whole_span buf = \<lparr>span_offset = 0, span_size = int (length buf)\<rparr>"

definition subspan :: "span \<Rightarrow> int \<Rightarrow> int \<Rightarrow> error + span" where
  \<comment> \<open>\<^verbatim>\<open>sp.subspan(offset, count)\<close>: defined only inside \<open>sp\<close>\<close>
  "subspan sp offset count =
     (if 0 \<le> offset \<and> 0 \<le> count \<and> offset + count \<le> span_size sp
      then Inr \<lparr>span_offset = span_offset sp + offset, span_size = count\<rparr>
      else Inl SpanOutOfRange)"

definition span_store :: "'a list \<Rightarrow> span \<Rightarrow> int \<Rightarrow> 'a \<Rightarrow> error + 'a list" where
  \<comment> \<open>\<^verbatim>\<open>sp[idx] = v\<close> for a span \<open>sp\<close> into \<open>buf\<close>\<close>
  "span_store buf sp idx v =
     (if 0 \<le> idx \<and> idx < span_size sp
      then Inr (buf[nat (span_offset sp + idx) := v])
      else Inl SpanOutOfRange)"

definition span_elems :: "'a list \<Rightarrow> span \<Rightarrow> 'a list" where
  \<comment> \<open>the elements a span views\<close>
  "span_elems buf sp = take (nat (span_size sp)) (drop (nat (span_offset sp)) buf)"

definition span_indices :: "span \<Rightarrow> int set" where
  \<comment> \<open>the buffer positions a span views\<close>
  "span_indices sp = {span_offset sp ..< span_offset sp + span_size sp}"

subsection \<open>Search\_Cuda\<close>

text \<open>
  The constructor (lines 28-45): the score buffer has \<open>batch_beam_size * vocab_size\<close>
  entries, all zero. \<^verbatim>\<open>done_cpu_\<close> is allocated and not written; its first value is a
  parameter of the model. The sequence store is built by its own constructor, outside the
  sources: the model takes the store as an argument. \<^verbatim>\<open>eos_meet_\<close> is read and written
  only by the kernel behind \<^verbatim>\<open>CheckForEOS\<close> and is left out.
\<close>

definition Search_Cuda_ctor :: "SearchParams_Cuda \<Rightarrow> Sequences_Cuda \<Rightarrow> bool \<Rightarrow> Search_Cuda" where
  "Search_Cuda_ctor p q done0 =
     (let batch_beam_size = BatchBeamSize p;
          next_token_size = batch_beam_size * vocab_size p
      in \<lparr>params = p, sequences = q,
          next_token_scores = replicate (nat next_token_size) 0,
          next_tokens = [],
          done_cpu = done0\<rparr>)"

definition GetSequenceLength :: "'a Search_Cuda_scheme \<Rightarrow> int" where
  "GetSequenceLength search = Sequences_GetSequenceLength (sequences search)"

definition GetScores :: "'a Search_Cuda_scheme \<Rightarrow> int \<Rightarrow> error + span" where
  "GetScores search batch_beam_index =
     (if batch_beam_index \<ge> 0 \<and> batch_beam_index < BatchBeamSize (params search)
      then subspan (whole_span (next_token_scores search))
             (batch_beam_index * vocab_size (params search)) (vocab_size (params search))
      else Inl AssertionFailed)"

text \<open>
  The class invariant the constructor sets up: the score buffer holds one row of
  \<open>vocab_size\<close> entries per batch-beam slot.
\<close>

definition scores_allocated :: "'a Search_Cuda_scheme \<Rightarrow> bool" where
  "scores_allocated search =
     (0 \<le> vocab_size (params search) \<and>
      int (length (next_token_scores search)) =
        BatchBeamSize (params search) * vocab_size (params search))"

definition score_at :: "'a Search_Cuda_scheme \<Rightarrow> int \<Rightarrow> int \<Rightarrow> ScoreType" where
  \<comment> \<open>the score of token \<open>t\<close> in the row of slot \<open>i\<close>\<close>
  "score_at search i t = next_token_scores search ! nat (i * vocab_size (params search) + t)"

subsection \<open>Processors\_Cuda::MinLength\<close>

function MinLength_loop :: "Search_Cuda \<Rightarrow> int \<Rightarrow> int \<Rightarrow> error + Search_Cuda" where
  "MinLength_loop search batch_beam_size i =
     (if i < batch_beam_size then
        (case GetScores search i of
           Inl e \<Rightarrow> Inl e
         | Inr beam_token_scores \<Rightarrow>
             (case span_store (next_token_scores search) beam_token_scores
                     (eos_token_id (params search)) ScoreType_lowest of
                Inl e \<Rightarrow> Inl e
              | Inr buf \<Rightarrow>
                  MinLength_loop (search\<lparr>next_token_scores := buf\<rparr>) batch_beam_size (i + 1)))
      else Inr search)"
  by pat_completeness auto
termination
  by (relation "measure (\<lambda>(search, batch_beam_size, i). nat (batch_beam_size - i))") auto

definition MinLength :: "Search_Cuda \<Rightarrow> int \<Rightarrow> error + Search_Cuda" where
  "MinLength search min_length =
     (if GetSequenceLength search \<ge> min_length then Inr search
      else MinLength_loop search (BatchBeamSize (params search)) 0)"

subsection \<open>Search\_Cuda::SetLogits\<close>

text \<open>
  The copy and the kernel of lines 92 and 95 are enqueued on one stream and run in that
  order; the model runs them in place. Device calls do not fail in the model.
  \<^verbatim>\<open>cuda::Launch_log_softmax\<close> is declared at line 24 and defined outside the sources: it
  is the parameter \<open>log_softmax\<close>, which gives, for the row of \<open>count\<close> values it is launched
  on, the value the kernel leaves at each position of that row.
\<close>

definition span_write :: "'a list \<Rightarrow> span \<Rightarrow> 'a list \<Rightarrow> 'a list" where
  \<comment> \<open>the buffer with the positions of the view overwritten by \<open>xs\<close>\<close>
  "span_write buf sp xs =
     take (nat (span_offset sp)) buf @ xs @ drop (nat (span_offset sp + span_size sp)) buf"

definition cudaMemcpy :: "'a list \<Rightarrow> span \<Rightarrow> 'a list \<Rightarrow> span \<Rightarrow> 'a list" where
  \<comment> \<open>\<^verbatim>\<open>cudaMemcpyAsync(target.data(), source.data(), source.size_bytes(), ...)\<close>\<close>
  "cudaMemcpy buf target src source =
     span_write buf \<lparr>span_offset = span_offset target, span_size = span_size source\<rparr>
       (span_elems src source)"

definition Launch_log_softmax ::
  "(ScoreType list \<Rightarrow> nat \<Rightarrow> ScoreType) \<Rightarrow> ScoreType list \<Rightarrow> span \<Rightarrow> ScoreType list" where
  \<comment> \<open>\<^verbatim>\<open>cuda::Launch_log_softmax(target.data(), target.size(), stream)\<close>\<close>
  "Launch_log_softmax log_softmax buf target =
     span_write buf target (map (log_softmax (span_elems buf target)) [0 ..< nat (span_size target)])"

function SetLogits_loop ::
  "(ScoreType list \<Rightarrow> nat \<Rightarrow> ScoreType) \<Rightarrow> ScoreType list \<Rightarrow> int \<Rightarrow> int \<Rightarrow>
   int \<Rightarrow> Search_Cuda \<Rightarrow> int \<Rightarrow> error + Search_Cuda" where
  "SetLogits_loop log_softmax logits input_length batch_beam_size current_logits search i =
     (if i < batch_beam_size then
        (case subspan (whole_span logits) current_logits (vocab_size (params search)) of
           Inl e \<Rightarrow> Inl e
         | Inr source \<Rightarrow>
             (case subspan (whole_span (next_token_scores search))
                     (i * vocab_size (params search)) (vocab_size (params search)) of
                Inl e \<Rightarrow> Inl e
              | Inr target \<Rightarrow>
                  (let copied = cudaMemcpy (next_token_scores search) target logits source;
                       current_logits' = current_logits + input_length * vocab_size (params search);
                       normalised = Launch_log_softmax log_softmax copied target
                   in SetLogits_loop log_softmax logits input_length batch_beam_size
                        current_logits' (search\<lparr>next_token_scores := normalised\<rparr>) (i + 1))))
      else Inr search)"
  by pat_completeness auto
termination
  by (relation "measure (\<lambda>(log_softmax, logits, input_length, batch_beam_size,
        current_logits, search, i). nat (batch_beam_size - i))") auto

text \<open>
  \<^verbatim>\<open>logits.size() / (batch_beam_size * vocab_size)\<close> is a division of unsigned values in the
  source; on a positive divisor it is the integer division of HOL.
\<close>

definition SetLogits ::
  "(ScoreType list \<Rightarrow> nat \<Rightarrow> ScoreType) \<Rightarrow> Search_Cuda \<Rightarrow> ScoreType list \<Rightarrow>
   error + Search_Cuda" where
  "SetLogits log_softmax search logits =
     (let batch_beam_size = BatchBeamSize (params search);
          divisor = batch_beam_size * vocab_size (params search)
      in if divisor = 0 then Inl DivisionByZero
         else
           (let input_length = int (length logits) div divisor
            in if int (length logits) mod divisor \<noteq> 0 then Inl AssertionFailed
               else if input_length \<noteq> 1 then Inl AssertionFailed
               else SetLogits_loop log_softmax logits input_length batch_beam_size
                      ((input_length - 1) * vocab_size (params search)) search 0))"

definition last_position :: "SearchParams_Cuda \<Rightarrow> int \<Rightarrow> int \<Rightarrow> span" where
  \<comment> \<open>the logits of the last of \<open>input_length\<close> positions of slot \<open>i\<close>\<close>
  "last_position p input_length i =
     \<lparr>span_offset = (i * input_length + (input_length - 1)) * vocab_size p,
      span_size = vocab_size p\<rparr>"

subsection \<open>GreedySearch\_Cuda\<close>







subsection \<open>BeamSearch\_Cuda\<close>

text \<open>
  The beam scorer (\<^verbatim>\<open>beam_search_scorer_cuda.h\<close>) and the kernels
  \<^verbatim>\<open>cuda::LaunchAddProbsKernel\<close> and \<^verbatim>\<open>cuda::BeamSearchTopK\<close> are outside the sources.
  They are parameters of the model, collected in one record: the scorer's state is a type
  variable, each of its member functions a function on that state, and each kernel the
  function from the buffers it reads to the buffers it writes (the scratch buffer
  \<^verbatim>\<open>topk_buffer_\<close> is internal to the top-k kernel).
\<close>

record 'bs collaborators =
  GetNextScores :: "'bs \<Rightarrow> ScoreType list"
  GetNextTokens :: "'bs \<Rightarrow> int list"
  Process :: "'bs \<Rightarrow> Sequences_Cuda \<Rightarrow> ScoreType list \<Rightarrow> int list \<Rightarrow> int list \<Rightarrow> 'bs"
  IsDone :: "'bs \<Rightarrow> 'bs"
  IsDoneLater :: "'bs \<Rightarrow> bool"
  AddProbsKernel :: "ScoreType list \<Rightarrow> ScoreType list \<Rightarrow> int \<Rightarrow> int \<Rightarrow> int \<Rightarrow> ScoreType list"
  BeamSearchTopK ::
    "ScoreType list \<Rightarrow> int \<Rightarrow> int \<Rightarrow> int \<Rightarrow> int \<Rightarrow> ScoreType list \<times> int list \<times> int list"

text \<open>
  Work on the stream is asynchronous: a launch only enqueues the kernel, and the device
  buffers change when the kernel runs. The search object carries the queue of kernels launched
  and not yet run, in launch order; \<^verbatim>\<open>cudaStreamSynchronize\<close> runs them all. A kernel is
  recorded with the host values it was launched with.
\<close>

datatype kernel =
  K_AddProbs "ScoreType list" int int int
| K_BeamSearchTopK int int int int

record 'bs BeamSearch_Cuda = Search_Cuda +
  beam_scorer :: 'bs
  topk_next_tokens :: "int list"
  topk_next_indices :: "int list"
  topk_next_scores :: "ScoreType list"
  cuda_stream :: "kernel list"

definition BeamSearch_Cuda_ctor ::
  "SearchParams_Cuda \<Rightarrow> Sequences_Cuda \<Rightarrow> bool \<Rightarrow> 'bs \<Rightarrow> int list \<Rightarrow> int list \<Rightarrow>
   ScoreType list \<Rightarrow> error + 'bs BeamSearch_Cuda" where
  \<comment> \<open>lines 54-70; the three candidate buffers are allocated and not written: their
      first contents \<open>tk\<close>, \<open>ix\<close>, \<open>sc\<close> are parameters\<close>
  "BeamSearch_Cuda_ctor p q done0 scorer tk ix sc =
     (if num_beams p > 1 then
        (let batch_beam_size = BatchBeamSize p
         in Inr (Search_Cuda.extend (Search_Cuda_ctor p q done0)
              (BeamSearch_Cuda.fields scorer
                 (take (nat (2 * batch_beam_size)) tk)
                 (take (nat (2 * batch_beam_size)) ix)
                 (take (nat (2 * batch_beam_size)) sc)
                 [])))
      else Inl AssertionFailed)"

fun run_kernel ::
  "'bs collaborators \<Rightarrow> kernel \<Rightarrow> 'bs BeamSearch_Cuda \<Rightarrow> 'bs BeamSearch_Cuda" where
  "run_kernel ext (K_AddProbs cum_log_probs batch beams vocab) search =
     search\<lparr>next_token_scores :=
       AddProbsKernel ext (next_token_scores search) cum_log_probs batch beams vocab\<rparr>"
| "run_kernel ext (K_BeamSearchTopK batch beams vocab k) search =
     (let (scores, tokens, indices) =
            BeamSearchTopK ext (next_token_scores search) batch beams vocab k
      in search\<lparr>topk_next_scores := scores, topk_next_tokens := tokens,
                topk_next_indices := indices\<rparr>)"

definition launch :: "kernel \<Rightarrow> 'bs BeamSearch_Cuda \<Rightarrow> 'bs BeamSearch_Cuda" where
  "launch k search = search\<lparr>cuda_stream := cuda_stream search @ [k]\<rparr>"

definition run_all ::
  "'bs collaborators \<Rightarrow> kernel list \<Rightarrow> 'bs BeamSearch_Cuda \<Rightarrow> 'bs BeamSearch_Cuda" where
  "run_all ext ks search = fold (run_kernel ext) ks search"

definition cudaStreamSynchronize ::
  "'bs collaborators \<Rightarrow> 'bs BeamSearch_Cuda \<Rightarrow> 'bs BeamSearch_Cuda" where
  "cudaStreamSynchronize ext search =
     (run_all ext (cuda_stream search) search)\<lparr>cuda_stream := []\<rparr>"

definition BeamSearch_launches ::
  "'bs collaborators \<Rightarrow> 'bs BeamSearch_Cuda \<Rightarrow> error + 'bs BeamSearch_Cuda" where
  \<comment> \<open>lines 128-161\<close>
  "BeamSearch_launches ext search =
     (let beam_scores = GetNextScores ext (beam_scorer search);
          p = params search;
          added = launch (K_AddProbs beam_scores (batch_size p) (num_beams p) (vocab_size p))
                    search
      in if num_beams p \<le> 32
         then Inr (launch (K_BeamSearchTopK (batch_size p) (num_beams p) (vocab_size p)
                             (2 * num_beams p)) added)
         else Inl AssertionFailed)"

definition BeamSearch_scorer_Process ::
  "'bs collaborators \<Rightarrow> 'bs BeamSearch_Cuda \<Rightarrow> 'bs BeamSearch_Cuda" where
  \<comment> \<open>lines 165-177: the host reads the candidate buffers as they are now\<close>
  "BeamSearch_scorer_Process ext search =
     (let size = BatchBeamSize (params search) * 2;
          next_scores = take (nat size) (topk_next_scores search);
          next_tokens' = take (nat size) (topk_next_tokens search);
          next_indices = take (nat size) (topk_next_indices search);
          scorer = Process ext (beam_scorer search) (sequences search)
                     next_scores next_tokens' next_indices
      in search\<lparr>beam_scorer := scorer, next_tokens := GetNextTokens ext scorer\<rparr>)"

definition BeamSearch_NextTokensFromLogits ::
  "'bs collaborators \<Rightarrow> 'bs BeamSearch_Cuda \<Rightarrow> error + 'bs BeamSearch_Cuda" where
  "BeamSearch_NextTokensFromLogits ext search =
     (case BeamSearch_launches ext search of
        Inl e \<Rightarrow> Inl e
      | Inr launched \<Rightarrow>
          Inr (BeamSearch_scorer_Process ext (cudaStreamSynchronize ext launched)))"

definition BeamSearch_IsDone ::
  "'bs collaborators \<Rightarrow> 'bs BeamSearch_Cuda \<Rightarrow> bool \<times> 'bs BeamSearch_Cuda" where
  \<comment> \<open>lines 197-201; the scorer is reached through a pointer, so its update is kept\<close>
  "BeamSearch_IsDone ext search =
     (let updated = search\<lparr>beam_scorer := IsDone ext (beam_scorer search)\<rparr>
      in (IsDoneLater ext (beam_scorer updated) \<or>
            GetSequenceLength updated = max_length (params updated),
          updated))"

subsection \<open>TopKSelector\<close>

text \<open>
  Modelled from the spec: \<^verbatim>\<open>cuda::BeamSearchTopK\<close> (\<^verbatim>\<open>beam_search_topk.h\<close>) is outside the
  sources. The spec: for each batch element the \<open>k\<close> highest (score, token) pairs over the
  flattened \<open>num_beams \<times> vocab_size\<close> candidate space, best first, computed in two stages.
  The partition stage splits the vocabulary into contiguous parts and computes, per (batch,
  beam, part), the local top \<open>k\<close>; the merge stage merges the partial lists per (batch, beam)
  and then across the beams of a batch element into one top-\<open>k\<close> list.

  A candidate is a score with its position in the flattened space (beam times vocabulary size
  plus token). Best first is: higher score first, and among equal scores the lower position
  first. Scores are compared as real numbers (no NaN).
\<close>

type_synonym candidate = "ScoreType \<times> nat"

definition best_first :: "candidate \<Rightarrow> ScoreType \<times> nat" where
  "best_first c = (- fst c, snd c)"

definition top_k :: "nat \<Rightarrow> candidate list \<Rightarrow> candidate list" where
  "top_k k cs = take k (sort_key best_first cs)"

definition batch_candidates :: "ScoreType list \<Rightarrow> nat \<Rightarrow> nat \<Rightarrow> nat \<Rightarrow> candidate list" where
  "batch_candidates scores beams vocab b =
     (let flat = take (beams * vocab) (drop (b * (beams * vocab)) scores)
      in zip flat [0 ..< length flat])"

text \<open>The reference: sort all candidates of the batch element and take the first \<open>k\<close>.\<close>

definition naive_top_k :: "nat \<Rightarrow> candidate list \<Rightarrow> candidate list" where
  "naive_top_k k cs = take k (sort_key best_first cs)"

text \<open>The two stages. \<open>parts\<close> is the number of parts of the vocabulary.\<close>

definition part_size :: "nat \<Rightarrow> nat \<Rightarrow> nat" where
  "part_size vocab parts = (vocab + parts - 1) div parts"

definition beam_row :: "candidate list \<Rightarrow> nat \<Rightarrow> nat \<Rightarrow> candidate list" where
  "beam_row cs vocab j = take vocab (drop (j * vocab) cs)"

definition vocab_part :: "candidate list \<Rightarrow> nat \<Rightarrow> nat \<Rightarrow> candidate list" where
  "vocab_part row psize p = take psize (drop (p * psize) row)"

definition partition_stage ::
  "nat \<Rightarrow> nat \<Rightarrow> nat \<Rightarrow> nat \<Rightarrow> candidate list \<Rightarrow> candidate list list list" where
  "partition_stage k parts beams vocab cs =
     map (\<lambda>j. map (\<lambda>p. top_k k (vocab_part (beam_row cs vocab j) (part_size vocab parts) p))
                [0 ..< parts])
       [0 ..< beams]"

definition merge_stage :: "nat \<Rightarrow> candidate list list list \<Rightarrow> candidate list" where
  "merge_stage k partial = top_k k (concat (map (\<lambda>lists. top_k k (concat lists)) partial))"

definition two_stage_top_k ::
  "nat \<Rightarrow> nat \<Rightarrow> nat \<Rightarrow> nat \<Rightarrow> candidate list \<Rightarrow> candidate list" where
  "two_stage_top_k k parts beams vocab cs = merge_stage k (partition_stage k parts beams vocab cs)"

text \<open>
  The kernel's three output arrays: scores, token ids and source beams, for all batch
  elements in order.
\<close>

definition unpack :: "nat \<Rightarrow> candidate list \<Rightarrow> ScoreType list \<times> int list \<times> int list" where
  "unpack vocab cs =
     (map fst cs, map (\<lambda>c. int (snd c mod vocab)) cs, map (\<lambda>c. int (snd c div vocab)) cs)"

definition TopKSelector ::
  "nat \<Rightarrow> ScoreType list \<Rightarrow> int \<Rightarrow> int \<Rightarrow> int \<Rightarrow> int \<Rightarrow> ScoreType list \<times> int list \<times> int list" where
  "TopKSelector parts scores batch beams vocab k =
     unpack (nat vocab)
       (concat (map (\<lambda>b. two_stage_top_k (nat k) parts (nat beams) (nat vocab)
                            (batch_candidates scores (nat beams) (nat vocab) b))
                  [0 ..< nat batch]))"

definition naive_selector ::
  "ScoreType list \<Rightarrow> int \<Rightarrow> int \<Rightarrow> int \<Rightarrow> int \<Rightarrow> ScoreType list \<times> int list \<times> int list" where
  "naive_selector scores batch beams vocab k =
     unpack (nat vocab)
       (concat (map (\<lambda>b. naive_top_k (nat k) (batch_candidates scores (nat beams) (nat vocab) b))
                  [0 ..< nat batch]))"

subsection \<open>BeamScorer\<close>

text \<open>
  Modelled from the spec: the beam scorer's class is outside the sources. The spec: per batch
  element a state \<open>ACTIVE\<close> or \<open>DONE\<close>, a set of live hypotheses, each with a cumulative
  score, a sequence slot and a done flag, and a pool of completed hypotheses. A batch element
  is \<open>DONE\<close> when \<open>num_beams\<close> completions are collected, or all live beams are terminated,
  or the length cap is hit. \<^verbatim>\<open>IsDone()\<close> updates the per-batch \<open>DONE\<close> transitions;
  \<^verbatim>\<open>IsDoneLater()\<close> reports whether all batch elements have reached \<open>DONE\<close>.
\<close>

datatype batch_state = ACTIVE | DONE

record hypothesis =
  cumulative_score :: ScoreType
  slot :: int
  done_flag :: bool

record BeamState =
  state :: batch_state
  live :: "hypothesis list"
  completed :: "hypothesis list"

record BeamSearchScorer_Cuda =
  beam_states :: "BeamState list"
  scorer_num_beams :: int
  scorer_sequence_length :: int
  scorer_max_length :: int

definition reaches_DONE :: "BeamSearchScorer_Cuda \<Rightarrow> BeamState \<Rightarrow> bool" where
  "reaches_DONE scorer b =
     (int (length (completed b)) \<ge> scorer_num_beams scorer \<or>
      list_all done_flag (live b) \<or>
      scorer_sequence_length scorer = scorer_max_length scorer)"

definition Scorer_IsDone :: "BeamSearchScorer_Cuda \<Rightarrow> BeamSearchScorer_Cuda" where
  "Scorer_IsDone scorer =
     scorer\<lparr>beam_states :=
       map (\<lambda>b. if state b = ACTIVE \<and> reaches_DONE scorer b then b\<lparr>state := DONE\<rparr> else b)
         (beam_states scorer)\<rparr>"

definition Scorer_IsDoneLater :: "BeamSearchScorer_Cuda \<Rightarrow> bool" where
  "Scorer_IsDoneLater scorer = list_all (\<lambda>b. state b = DONE) (beam_states scorer)"

definition with_scorer ::
  "BeamSearchScorer_Cuda collaborators \<Rightarrow> BeamSearchScorer_Cuda collaborators" where
  "with_scorer ext = ext\<lparr>IsDone := Scorer_IsDone, IsDoneLater := Scorer_IsDoneLater\<rparr>"

text \<open>
  Modelled from the comment at lines 130-131
  (\<^verbatim>\<open>next_token_scores + beam_scores[:, None]\<close>): the kernel behind
  \<^verbatim>\<open>cuda::LaunchAddProbsKernel\<close> is outside the sources. It only runs the model on concrete
  inputs.
\<close>

definition AddProbs ::
  "ScoreType list \<Rightarrow> ScoreType list \<Rightarrow> int \<Rightarrow> int \<Rightarrow> int \<Rightarrow> ScoreType list" where
  "AddProbs log_probs cum_log_probs batch beams vocab =
     map (\<lambda>i. log_probs ! i + cum_log_probs ! (i div nat vocab)) [0 ..< length log_probs]"

text \<open>
  Modelled from the spec: the kernel behind \<^verbatim>\<open>cuda::Launch_log_softmax\<close> is outside the
  sources; the spec has a log-softmax applied in place, per slot. The theorems below hold for
  every kernel; this one only runs the model on concrete inputs.
\<close>

definition log_softmax :: "ScoreType list \<Rightarrow> nat \<Rightarrow> ScoreType" where
  "log_softmax row k = row ! k - ln (sum_list (map exp row))"

subsection \<open>A small search object for concrete runs\<close>

text \<open>
  One batch element, two beams, a vocabulary of three tokens, the end-of-sequence token 0;
  the sequences hold \<open>n\<close> tokens each.
\<close>

definition example_params :: SearchParams_Cuda where
  "example_params = \<lparr>batch_size = 1, num_beams = 2, vocab_size = 3, max_length = 6,
     eos_token_id = 0, pad_token_id = 0\<rparr>"

definition example_sequences :: "int \<Rightarrow> Sequences_Cuda" where
  "example_sequences n = \<lparr>slots = [replicate (nat n) 1, replicate (nat n) 1], current_length = n\<rparr>"

definition example_search :: "int \<Rightarrow> Search_Cuda" where
  "example_search n = Search_Cuda_ctor example_params (example_sequences n) False"

definition example_logits :: "ScoreType list" where
  "example_logits = [0, 1, 2, 3, 4, 5, 6, 7, 8, 9, 10, 11]"

text \<open>
  A beam search object: one batch element, two beams, five tokens, with the scores of a step
  in the score buffer. Its scorer only records the candidates it is handed; the cumulative
  scores of its two beams are 0 and -1. The vocabulary is split in two parts.
\<close>

definition example_scores :: "ScoreType list" where
  "example_scores = [1, 7, 3, 7, 0, 2, 9, 4, 8, 5]"

type_synonym recorded = "ScoreType list \<times> int list \<times> int list"

definition example_collaborators :: "recorded collaborators" where
  "example_collaborators =
     \<lparr>GetNextScores = (\<lambda>scorer. [0, - 1]),
      GetNextTokens = (\<lambda>scorer. fst (snd scorer)),
      Process = (\<lambda>scorer q scores tokens indices. (scores, tokens, indices)),
      IsDone = (\<lambda>scorer. scorer),
      IsDoneLater = (\<lambda>scorer. False),
      AddProbsKernel = AddProbs,
      BeamSearchTopK = TopKSelector 2\<rparr>"

definition example_beam :: "int \<Rightarrow> recorded BeamSearch_Cuda" where
  "example_beam beams =
     Search_Cuda.extend
       ((Search_Cuda_ctor (example_params\<lparr>num_beams := beams, vocab_size := 5\<rparr>)
           (example_sequences 2) False)\<lparr>next_token_scores := example_scores\<rparr>)
       (BeamSearch_Cuda.fields ([], [], []) [0, 0, 0, 0] [0, 0, 0, 0] [0, 0, 0, 0] [])"





text \<open>
  A beam search object on the scorer modelled from the spec, with its batch elements given:
  one that has collected \<open>num_beams = 2\<close> completions, one whose live beams are all
  terminated, and one still running. \<^verbatim>\<open>Process\<close> is not needed by a claim and left as the
  identity.
\<close>

definition scorer_collaborators :: "BeamSearchScorer_Cuda collaborators" where
  "scorer_collaborators =
     \<lparr>GetNextScores = (\<lambda>scorer. concat (map (\<lambda>b. map cumulative_score (live b)) (beam_states scorer))),
      GetNextTokens = (\<lambda>scorer. []),
      Process = (\<lambda>scorer q scores tokens indices. scorer),
      IsDone = Scorer_IsDone,
      IsDoneLater = Scorer_IsDoneLater,
      AddProbsKernel = AddProbs,
      BeamSearchTopK = TopKSelector 2\<rparr>"

definition example_hypothesis :: "bool \<Rightarrow> hypothesis" where
  "example_hypothesis d = \<lparr>cumulative_score = 0, slot = 0, done_flag = d\<rparr>"

definition example_collected :: BeamState where
  "example_collected = \<lparr>state = ACTIVE,
     live = [example_hypothesis False, example_hypothesis True],
     completed = [example_hypothesis True, example_hypothesis True]\<rparr>"

definition example_terminated :: BeamState where
  "example_terminated = \<lparr>state = ACTIVE,
     live = [example_hypothesis True, example_hypothesis True],
     completed = []\<rparr>"

definition example_running :: BeamState where
  "example_running = \<lparr>state = ACTIVE,
     live = [example_hypothesis False, example_hypothesis True],
     completed = [example_hypothesis True]\<rparr>"

definition example_scored_beam :: "BeamState list \<Rightarrow> BeamSearchScorer_Cuda BeamSearch_Cuda" where
  "example_scored_beam bs =
     Search_Cuda.extend
       (Search_Cuda_ctor (example_params\<lparr>batch_size := int (length bs)\<rparr>) (example_sequences 3) False)
       (BeamSearch_Cuda.fields
          \<lparr>beam_states = bs, scorer_num_beams = 2, scorer_sequence_length = 3,
           scorer_max_length = 6\<rparr> [] [] [] [])"

section \<open>Score rows and MinLength\<close>

lemma GetScores_Inr:
  assumes "GetScores search i = Inr sp"
  shows "0 \<le> i \<and> i < BatchBeamSize (params search) \<and> 0 \<le> vocab_size (params search)
     \<and> sp = \<lparr>span_offset = i * vocab_size (params search), span_size = vocab_size (params search)\<rparr>
     \<and> i * vocab_size (params search) + vocab_size (params search) \<le> int (length (next_token_scores search))
     \<and> 0 \<le> i * vocab_size (params search)"
  using assms by (auto simp: GetScores_def subspan_def whole_span_def split: if_splits)

lemma row_within:
  fixes i v n :: int
  assumes "0 \<le> v" "i < n"
  shows "i * v + v \<le> n * v"
proof -
  have "(i + 1) * v \<le> n * v" using assms by (intro mult_right_mono) auto
  then show ?thesis by (simp add: algebra_simps)
qed

lemma GetScores_allocated:
  assumes "scores_allocated search" "0 \<le> i" "i < BatchBeamSize (params search)"
  shows "GetScores search i =
     Inr \<lparr>span_offset = i * vocab_size (params search), span_size = vocab_size (params search)\<rparr>"
proof -
  have "i * vocab_size (params search) + vocab_size (params search)
      \<le> BatchBeamSize (params search) * vocab_size (params search)"
    using assms by (intro row_within) (auto simp: scores_allocated_def)
  moreover have "0 \<le> i * vocab_size (params search)"
    using assms by (auto simp: scores_allocated_def)
  ultimately show ?thesis
    using assms by (auto simp: GetScores_def subspan_def whole_span_def scores_allocated_def)
qed

lemma MinLength_loop_result:
  "MinLength_loop search n i = Inr search' \<Longrightarrow>
     params search' = params search \<and> sequences search' = sequences search \<and>
     done_cpu search' = done_cpu search \<and>
     length (next_token_scores search') = length (next_token_scores search) \<and>
     (i < n \<longrightarrow> 0 \<le> eos_token_id (params search) \<and>
        eos_token_id (params search) < vocab_size (params search)) \<and>
     (\<forall>k. next_token_scores search' ! k =
        (if \<exists>j. i \<le> j \<and> j < n \<and>
               k = nat (j * vocab_size (params search) + eos_token_id (params search))
         then ScoreType_lowest else next_token_scores search ! k))"
proof (induction search n i arbitrary: search' rule: MinLength_loop.induct)
  case (1 search n i)
  show ?case
  proof (cases "i < n")
    case False
    with "1.prems" show ?thesis by auto
  next
    case True
    let ?v = "vocab_size (params search)"
    let ?e = "eos_token_id (params search)"
    from True "1.prems" obtain sp where sp: "GetScores search i = Inr sp"
      by (cases "GetScores search i") auto
    note g = GetScores_Inr [OF sp]
    from True "1.prems" sp obtain buf where
      buf: "span_store (next_token_scores search) sp ?e ScoreType_lowest = Inr buf"
      by (cases "span_store (next_token_scores search) sp ?e ScoreType_lowest") auto
    from buf g have e: "0 \<le> ?e" "?e < ?v"
      and bufeq: "buf = (next_token_scores search)[nat (i * ?v + ?e) := ScoreType_lowest]"
      by (auto simp: span_store_def split: if_splits)
    let ?s1 = "search\<lparr>next_token_scores := buf\<rparr>"
    from True "1.prems" sp buf have rec: "MinLength_loop ?s1 n (i + 1) = Inr search'"
      by simp
    note ih = "1.IH" [OF True sp buf rec]
    have inrange: "nat (i * ?v + ?e) < length (next_token_scores search)"
      using g e by linarith
    have bufk: "\<And>k. buf ! k = (if k = nat (i * ?v + ?e) then ScoreType_lowest
                                else next_token_scores search ! k)"
      using inrange by (simp add: bufeq nth_list_update)
    have split: "\<And>k. (\<exists>j. i \<le> j \<and> j < n \<and> k = nat (j * ?v + ?e)) \<longleftrightarrow>
                 (k = nat (i * ?v + ?e) \<or> (\<exists>j. i + 1 \<le> j \<and> j < n \<and> k = nat (j * ?v + ?e)))"
    proof -
      fix k
      show "(\<exists>j. i \<le> j \<and> j < n \<and> k = nat (j * ?v + ?e)) \<longleftrightarrow>
                 (k = nat (i * ?v + ?e) \<or> (\<exists>j. i + 1 \<le> j \<and> j < n \<and> k = nat (j * ?v + ?e)))"
        using True by (metis add1_zle_eq order_le_less)
    qed
    have s1: "params ?s1 = params search" "sequences ?s1 = sequences search"
      "done_cpu ?s1 = done_cpu search" "next_token_scores ?s1 = buf"
      "length buf = length (next_token_scores search)"
      by (simp_all add: bufeq)
    have nth: "next_token_scores search' ! k =
        (if \<exists>j. i \<le> j \<and> j < n \<and> k = nat (j * ?v + ?e)
         then ScoreType_lowest else next_token_scores search ! k)" for k
    proof -
      from ih have "next_token_scores search' ! k =
        (if \<exists>j. i + 1 \<le> j \<and> j < n \<and> k = nat (j * ?v + ?e)
         then ScoreType_lowest else buf ! k)"
        unfolding s1 by blast
      moreover have "(if A then c else if B then c else d) = (if B \<or> A then c else d)"
        for A B and c d :: ScoreType
        by simp
      ultimately show ?thesis
        unfolding bufk split [of k] by (simp only:)
    qed
    from ih have "params search' = params search" "sequences search' = sequences search"
      "done_cpu search' = done_cpu search"
      "length (next_token_scores search') = length (next_token_scores search)"
      unfolding s1 by simp_all
    with nth e show ?thesis by blast
  qed
qed

lemma MinLength_loop_succeeds:
  "scores_allocated search \<Longrightarrow> 0 \<le> eos_token_id (params search) \<Longrightarrow>
   eos_token_id (params search) < vocab_size (params search) \<Longrightarrow> 0 \<le> i \<Longrightarrow>
   n \<le> BatchBeamSize (params search) \<Longrightarrow> \<exists>search'. MinLength_loop search n i = Inr search'"
proof (induction search n i rule: MinLength_loop.induct)
  case (1 search n i)
  show ?case
  proof (cases "i < n")
    case False
    then show ?thesis by simp
  next
    case True
    let ?v = "vocab_size (params search)"
    let ?e = "eos_token_id (params search)"
    let ?sp = "\<lparr>span_offset = i * ?v, span_size = ?v\<rparr>"
    let ?buf = "(next_token_scores search)[nat (i * ?v + ?e) := ScoreType_lowest]"
    have sp: "GetScores search i = Inr ?sp"
      using "1.prems" True by (intro GetScores_allocated) auto
    have buf: "span_store (next_token_scores search) ?sp ?e ScoreType_lowest = Inr ?buf"
      using "1.prems" by (simp add: span_store_def)
    have alloc: "scores_allocated (search\<lparr>next_token_scores := ?buf\<rparr>)"
      using "1.prems" by (simp add: scores_allocated_def)
    have "\<exists>search'. MinLength_loop (search\<lparr>next_token_scores := ?buf\<rparr>) n (i + 1) = Inr search'"
      using "1.prems" by (intro "1.IH" [OF True sp buf alloc]) auto
    then show ?thesis
      using True sp buf by simp
  qed
qed

lemma slot_token_unique:
  fixes i j t e v :: int
  assumes "0 \<le> t" "t < v" "0 \<le> e" "e < v" "i * v + t = j * v + e"
  shows "t = e \<and> i = j"
proof -
  have m: "(i * v + t) mod v = t" "(j * v + e) mod v = e"
    using assms(1-4) by simp_all
  from assms(5) have "(i * v + t) mod v = (j * v + e) mod v" by (rule arg_cong)
  then have te: "t = e" by (simp only: m)
  with assms have "i * v = j * v" by simp
  with assms have "i = j" by simp
  with te show ?thesis by simp
qed

lemmas example_defs = example_search_def Search_Cuda_ctor_def example_params_def
  BatchBeamSize_def example_sequences_def GetSequenceLength_def Sequences_GetSequenceLength_def

lemma example_search_allocated: "scores_allocated (example_search n)"
  by (simp add: scores_allocated_def example_defs)

lemma example_sizes:
  "BatchBeamSize (params (example_search n)) = 2"
  "vocab_size (params (example_search n)) = 3"
  "eos_token_id (params (example_search n)) = 0"
  by (simp_all add: example_defs)

lemma example_MinLength:
  "MinLength (example_search 4) 5 =
     Inr ((example_search 4)\<lparr>next_token_scores :=
            [ScoreType_lowest, 0, 0, ScoreType_lowest, 0, 0]\<rparr>)"
  by (simp add: MinLength_def example_defs GetScores_def subspan_def whole_span_def
      span_store_def eval_nat_numeral)

text \<open>
  C8. \<^verbatim>\<open>GetScores(batch_beam_index)\<close> asserts \<open>0 \<le> batch_beam_index < batch_beam_size\<close>
  and fails with the assertion otherwise. Inside the range it returns the view of
  \<open>vocab_size\<close> consecutive entries of the score matrix that starts at
  \<open>batch_beam_index * vocab_size\<close>: the view lies inside the buffer, its entries are the
  scores of that slot, and the views of two different slots share no position.
\<close>

theorem GetScores_row:
  assumes "scores_allocated search"
  shows "(0 \<le> i \<and> i < BatchBeamSize (params search) \<longrightarrow>
           (\<exists>sp. GetScores search i = Inr sp \<and>
              span_offset sp = i * vocab_size (params search) \<and>
              span_size sp = vocab_size (params search) \<and>
              span_indices sp \<subseteq> {0 ..< int (length (next_token_scores search))} \<and>
              length (span_elems (next_token_scores search) sp) = nat (vocab_size (params search)) \<and>
              (\<forall>t. 0 \<le> t \<and> t < vocab_size (params search) \<longrightarrow>
                 span_elems (next_token_scores search) sp ! nat t = score_at search i t))) \<and>
         (\<not> (0 \<le> i \<and> i < BatchBeamSize (params search)) \<longrightarrow>
            GetScores search i = Inl AssertionFailed) \<and>
         (\<forall>j sp sp'. GetScores search i = Inr sp \<and> GetScores search j = Inr sp' \<and> i \<noteq> j \<longrightarrow>
            span_indices sp \<inter> span_indices sp' = {})"
proof (intro conjI impI allI)
  let ?v = "vocab_size (params search)"
  let ?buf = "next_token_scores search"
  assume i: "0 \<le> i \<and> i < BatchBeamSize (params search)"
  let ?sp = "\<lparr>span_offset = i * ?v, span_size = ?v\<rparr>"
  from i assms have g: "GetScores search i = Inr ?sp"
    by (intro GetScores_allocated) auto
  note b = GetScores_Inr [OF g]
  have sub: "span_indices ?sp \<subseteq> {0 ..< int (length ?buf)}"
    using b by (auto simp: span_indices_def)
  have len: "length (span_elems ?buf ?sp) = nat ?v"
    using b by (simp add: span_elems_def) linarith
  have nth: "span_elems ?buf ?sp ! nat t = score_at search i t" if "0 \<le> t \<and> t < ?v" for t
  proof -
    have "nat (i * ?v) + nat t = nat (i * ?v + t)"
      using b that by (simp add: nat_add_distrib)
    moreover have "nat (i * ?v) \<le> length ?buf" "nat t < nat ?v"
      using b that by linarith+
    ultimately show ?thesis
      by (simp add: span_elems_def score_at_def)
  qed
  from g sub len nth
  show "\<exists>sp. GetScores search i = Inr sp \<and>
              span_offset sp = i * ?v \<and> span_size sp = ?v \<and>
              span_indices sp \<subseteq> {0 ..< int (length ?buf)} \<and>
              length (span_elems ?buf sp) = nat ?v \<and>
              (\<forall>t. 0 \<le> t \<and> t < ?v \<longrightarrow> span_elems ?buf sp ! nat t = score_at search i t)"
    by (intro exI [of _ ?sp]) simp
next
  assume "\<not> (0 \<le> i \<and> i < BatchBeamSize (params search))"
  then show "GetScores search i = Inl AssertionFailed"
    by (auto simp: GetScores_def)
next
  fix j sp sp'
  let ?v = "vocab_size (params search)"
  assume a: "GetScores search i = Inr sp \<and> GetScores search j = Inr sp' \<and> i \<noteq> j"
  then have bi: "sp = \<lparr>span_offset = i * ?v, span_size = ?v\<rparr>" "0 \<le> ?v"
    and bj: "sp' = \<lparr>span_offset = j * ?v, span_size = ?v\<rparr>"
    using GetScores_Inr by blast+
  from a consider "i < j" | "j < i" by linarith
  then show "span_indices sp \<inter> span_indices sp' = {}"
  proof cases
    case 1
    from row_within [OF bi(2) 1] show ?thesis
      unfolding bi bj by (auto simp: span_indices_def)
  next
    case 2
    from row_within [OF bi(2) 2] show ?thesis
      unfolding bi bj by (auto simp: span_indices_def)
  qed
qed

theorem GetScores_row_witness:
  "scores_allocated (example_search 4) \<and>
   (\<exists>sp. GetScores (example_search 4) 1 = Inr sp \<and> span_offset sp = 3 \<and> span_size sp = 3 \<and>
      span_indices sp \<subseteq> {0 ..< 6} \<and>
      span_indices sp \<inter> span_indices \<lparr>span_offset = 0, span_size = 3\<rparr> = {}) \<and>
   GetScores (example_search 4) 2 = Inl AssertionFailed"
proof -
  have h: "scores_allocated (example_search 4)"
    by (rule example_search_allocated)
  have b: "BatchBeamSize (params (example_search 4)) = 2"
    "vocab_size (params (example_search 4)) = 3"
    "length (next_token_scores (example_search 4)) = 6"
    by (simp_all add: example_defs)
  have g0: "GetScores (example_search 4) 0 = Inr \<lparr>span_offset = 0, span_size = 3\<rparr>"
    by (simp add: GetScores_def subspan_def whole_span_def example_defs)
  from GetScores_row [OF h, of 1] obtain sp where
    sp: "GetScores (example_search 4) 1 = Inr sp" "span_offset sp = 3" "span_size sp = 3"
      "span_indices sp \<subseteq> {0 ..< 6}"
    and dis: "\<forall>j sp'. GetScores (example_search 4) j = Inr sp' \<and> 1 \<noteq> j \<longrightarrow>
        span_indices sp \<inter> span_indices sp' = {}"
    unfolding b by auto
  from dis g0 have "span_indices sp \<inter> span_indices \<lparr>span_offset = 0, span_size = 3\<rparr> = {}"
    by (metis zero_neq_one)
  moreover from GetScores_row [OF h, of 2] have "GetScores (example_search 4) 2 = Inl AssertionFailed"
    unfolding b by simp
  ultimately show ?thesis using h sp by blast
qed

text \<open>
  C2. \<^verbatim>\<open>MinLength\<close> acts only while the sequence length is below \<open>min_length\<close>: it then
  succeeds and every slot's end-of-sequence score is the lowest score value. At a length of
  \<open>min_length\<close> or more it returns the search object as it was. The end-of-sequence token is
  a token of the vocabulary.
\<close>

theorem MinLength_sets_eos:
  assumes "scores_allocated search"
    and "0 \<le> eos_token_id (params search)"
    and "eos_token_id (params search) < vocab_size (params search)"
  shows "(GetSequenceLength search < min_length \<longrightarrow>
           (\<exists>search'. MinLength search min_length = Inr search' \<and>
              (\<forall>i. 0 \<le> i \<and> i < BatchBeamSize (params search) \<longrightarrow>
                 score_at search' i (eos_token_id (params search)) = ScoreType_lowest))) \<and>
         (GetSequenceLength search \<ge> min_length \<longrightarrow> MinLength search min_length = Inr search)"
proof (intro conjI impI)
  assume lt: "GetSequenceLength search < min_length"
  from MinLength_loop_succeeds [OF assms, of 0 "BatchBeamSize (params search)"]
  obtain search' where loop: "MinLength_loop search (BatchBeamSize (params search)) 0 = Inr search'"
    by auto
  note r = MinLength_loop_result [OF loop]
  have "score_at search' i (eos_token_id (params search)) = ScoreType_lowest"
    if "0 \<le> i \<and> i < BatchBeamSize (params search)" for i
  proof -
    from that have "\<exists>j. 0 \<le> j \<and> j < BatchBeamSize (params search) \<and>
       nat (i * vocab_size (params search) + eos_token_id (params search)) =
       nat (j * vocab_size (params search) + eos_token_id (params search))"
      by blast
    with r show ?thesis by (simp add: score_at_def)
  qed
  with loop lt show "\<exists>search'. MinLength search min_length = Inr search' \<and>
              (\<forall>i. 0 \<le> i \<and> i < BatchBeamSize (params search) \<longrightarrow>
                 score_at search' i (eos_token_id (params search)) = ScoreType_lowest)"
    by (simp add: MinLength_def)
next
  assume "GetSequenceLength search \<ge> min_length"
  then show "MinLength search min_length = Inr search" by (simp add: MinLength_def)
qed

theorem MinLength_sets_eos_witness:
  "scores_allocated (example_search 4) \<and>
   0 \<le> eos_token_id (params (example_search 4)) \<and>
   eos_token_id (params (example_search 4)) < vocab_size (params (example_search 4)) \<and>
   GetSequenceLength (example_search 4) < 5 \<and>
   (\<exists>search'. MinLength (example_search 4) 5 = Inr search' \<and>
      score_at search' 0 0 = ScoreType_lowest \<and> score_at search' 1 0 = ScoreType_lowest) \<and>
   GetSequenceLength (example_search 5) \<ge> 5 \<and>
   MinLength (example_search 5) 5 = Inr (example_search 5)"
proof -
  have h4: "scores_allocated (example_search 4)"
    "0 \<le> eos_token_id (params (example_search 4))"
    "eos_token_id (params (example_search 4)) < vocab_size (params (example_search 4))"
    by (simp_all add: scores_allocated_def example_defs)
  have h5: "scores_allocated (example_search 5)"
    "0 \<le> eos_token_id (params (example_search 5))"
    "eos_token_id (params (example_search 5)) < vocab_size (params (example_search 5))"
    by (simp_all add: scores_allocated_def example_defs)
  have l4: "GetSequenceLength (example_search 4) < 5"
    and l5: "GetSequenceLength (example_search 5) \<ge> 5"
    and b: "BatchBeamSize (params (example_search 4)) = 2"
    and e: "eos_token_id (params (example_search 4)) = 0"
    by (simp_all add: example_defs)
  from MinLength_sets_eos [OF h4, of 5] l4 obtain search' where
    s: "MinLength (example_search 4) 5 = Inr search'"
    "\<forall>i. 0 \<le> i \<and> i < 2 \<longrightarrow> score_at search' i 0 = ScoreType_lowest"
    unfolding b e by blast
  from s(2) have "score_at search' 0 0 = ScoreType_lowest" "score_at search' 1 0 = ScoreType_lowest"
    by simp_all
  with s(1) h4 l4 l5 MinLength_sets_eos [OF h5, of 5] show ?thesis by blast
qed

text \<open>
  C9. \<^verbatim>\<open>MinLength\<close> changes the end-of-sequence entry of a row and nothing else of it: the
  score of every other token of every slot is the one before the call.
\<close>

theorem MinLength_frame:
  assumes "MinLength search min_length = Inr search'"
    and "0 \<le> i" "i < BatchBeamSize (params search)"
    and "0 \<le> t" "t < vocab_size (params search)" "t \<noteq> eos_token_id (params search)"
  shows "score_at search' i t = score_at search i t"
proof (cases "GetSequenceLength search \<ge> min_length")
  case True
  with assms(1) show ?thesis by (simp add: MinLength_def)
next
  case False
  let ?v = "vocab_size (params search)"
  let ?e = "eos_token_id (params search)"
  from False assms(1)
  have loop: "MinLength_loop search (BatchBeamSize (params search)) 0 = Inr search'"
    by (simp add: MinLength_def)
  note r = MinLength_loop_result [OF loop]
  from r assms have e: "0 \<le> ?e" "?e < ?v" by auto
  have "\<not> (\<exists>j. 0 \<le> j \<and> j < BatchBeamSize (params search) \<and>
            nat (i * ?v + t) = nat (j * ?v + ?e))"
  proof
    assume "\<exists>j. 0 \<le> j \<and> j < BatchBeamSize (params search) \<and>
            nat (i * ?v + t) = nat (j * ?v + ?e)"
    then obtain j where j: "0 \<le> j" "nat (i * ?v + t) = nat (j * ?v + ?e)" by blast
    have "0 \<le> i * ?v + t" "0 \<le> j * ?v + ?e"
      using assms e j by auto
    with j have "i * ?v + t = j * ?v + ?e" by linarith
    from slot_token_unique [OF assms(4,5) e this] assms(6) show False by simp
  qed
  moreover from r have "next_token_scores search' ! k =
        (if \<exists>j. 0 \<le> j \<and> j < BatchBeamSize (params search) \<and> k = nat (j * ?v + ?e)
         then ScoreType_lowest else next_token_scores search ! k)" for k
    by blast
  ultimately have "next_token_scores search' ! nat (i * ?v + t) = next_token_scores search ! nat (i * ?v + t)"
    by (simp only: if_False)
  with r show ?thesis by (simp add: score_at_def)
qed

theorem MinLength_frame_witness:
  "MinLength (example_search 4) 5 =
     Inr ((example_search 4)\<lparr>next_token_scores :=
            [ScoreType_lowest, 0, 0, ScoreType_lowest, 0, 0]\<rparr>) \<and>
   (1::int) < BatchBeamSize (params (example_search 4)) \<and>
   (2::int) < vocab_size (params (example_search 4)) \<and>
   2 \<noteq> eos_token_id (params (example_search 4)) \<and>
   score_at ((example_search 4)\<lparr>next_token_scores :=
            [ScoreType_lowest, 0, 0, ScoreType_lowest, 0, 0]\<rparr>) 1 2 =
     score_at (example_search 4) 1 2"
proof -
  have h: "(0::int) \<le> 1" "(1::int) < BatchBeamSize (params (example_search 4))"
    "(0::int) \<le> 2" "(2::int) < vocab_size (params (example_search 4))"
    "2 \<noteq> eos_token_id (params (example_search 4))"
    by (simp_all add: example_defs)
  from MinLength_frame [OF example_MinLength h] example_MinLength h show ?thesis
    by blast
qed

section \<open>SetLogits\<close>

lemma length_span_write:
  assumes "0 \<le> span_offset sp" "0 \<le> span_size sp"
    and "span_offset sp + span_size sp \<le> int (length buf)"
    and "length xs = nat (span_size sp)"
  shows "length (span_write buf sp xs) = length buf"
  using assms by (simp add: span_write_def)

lemma nth_span_write:
  assumes "0 \<le> span_offset sp" "0 \<le> span_size sp"
    and "span_offset sp + span_size sp \<le> int (length buf)"
    and "length xs = nat (span_size sp)"
  shows "span_write buf sp xs ! k =
     (if nat (span_offset sp) \<le> k \<and> k < nat (span_offset sp + span_size sp)
      then xs ! (k - nat (span_offset sp)) else buf ! k)"
proof -
  let ?a = "nat (span_offset sp)"
  let ?b = "nat (span_offset sp + span_size sp)"
  have a: "length (take ?a buf) = ?a" using assms by simp
  have ab: "?b = ?a + length xs" using assms by (simp add: nat_add_distrib)
  have b: "?b \<le> length buf" using assms by linarith
  consider "k < ?a" | "?a \<le> k" "k < ?b" | "?b \<le> k" by linarith
  then show ?thesis
  proof cases
    case 1
    then show ?thesis using a by (simp add: span_write_def nth_append)
  next
    case 2
    then have "\<not> k < ?a" "k - ?a < length xs"
      using ab by auto
    then show ?thesis using a 2 by (simp add: span_write_def nth_append)
  next
    case 3
    then have "\<not> k < ?a" "\<not> k - ?a < length xs" "?b + (k - ?a - length xs) = k"
      using ab by auto
    then show ?thesis using a b 3 by (simp add: span_write_def nth_append)
  qed
qed

lemma span_elems_span_write:
  assumes "0 \<le> span_offset sp" "span_offset sp \<le> int (length buf)"
    and "length xs = nat (span_size sp)"
  shows "span_elems (span_write buf sp xs) sp = xs"
proof -
  have "length (take (nat (span_offset sp)) buf) = nat (span_offset sp)"
    using assms by simp
  then show ?thesis
    using assms by (simp add: span_elems_def span_write_def)
qed

lemma length_span_elems:
  assumes "0 \<le> span_offset sp" "0 \<le> span_size sp"
    and "span_offset sp + span_size sp \<le> int (length buf)"
  shows "length (span_elems buf sp) = nat (span_size sp)"
  using assms by (simp add: span_elems_def)

lemma SetLogits_step:
  fixes v i c :: int
  assumes v: "0 \<le> v" and tgt: "0 \<le> i" "i * v + v \<le> int (length buf)"
    and src: "0 \<le> c" "c + v \<le> int (length logits)"
    and source_def: "source = \<lparr>span_offset = c, span_size = v\<rparr>"
    and target_def: "target = \<lparr>span_offset = i * v, span_size = v\<rparr>"
    and nb_def: "nb = Launch_log_softmax lsm (cudaMemcpy buf target logits source) target"
  shows "length nb = length buf"
    and "nb ! k = (if nat (i * v) \<le> k \<and> k < nat (i * v + v)
                   then lsm (span_elems logits source) (k - nat (i * v)) else buf ! k)"
proof -
  let ?row = "span_elems logits source"
  let ?copied = "cudaMemcpy buf target logits source"
  have iv: "0 \<le> i * v" using v tgt by simp
  have lrow: "length ?row = nat v"
    using v src by (intro length_span_elems [THEN trans]) (simp_all add: source_def)
  have copied: "?copied = span_write buf target ?row"
    by (simp add: cudaMemcpy_def source_def target_def)
  have lcopied: "length ?copied = length buf"
    unfolding copied using v iv tgt lrow by (intro length_span_write) (simp_all add: target_def)
  have readback: "span_elems ?copied target = ?row"
    unfolding copied using v iv tgt lrow by (intro span_elems_span_write) (simp_all add: target_def)
  have nb: "nb = span_write ?copied target (map (lsm ?row) [0 ..< nat v])"
    by (simp add: nb_def Launch_log_softmax_def readback) (simp add: target_def)
  show "length nb = length buf"
    unfolding nb using v iv tgt lcopied
    by (intro length_span_write [THEN trans]) (simp_all add: target_def)
  have "nb ! k = (if nat (i * v) \<le> k \<and> k < nat (i * v + v)
                  then map (lsm ?row) [0 ..< nat v] ! (k - nat (i * v)) else ?copied ! k)"
    unfolding nb using v iv tgt lcopied
    by (subst nth_span_write) (simp_all add: target_def)
  moreover have "?copied ! k = buf ! k" if "\<not> (nat (i * v) \<le> k \<and> k < nat (i * v + v))"
  proof -
    have "?copied ! k = (if nat (i * v) \<le> k \<and> k < nat (i * v + v)
                         then ?row ! (k - nat (i * v)) else buf ! k)"
      unfolding copied using v iv tgt lrow
      by (subst nth_span_write) (simp_all add: target_def)
    with that show ?thesis by (simp only: if_False)
  qed
  moreover have "map (lsm ?row) [0 ..< nat v] ! (k - nat (i * v)) = lsm ?row (k - nat (i * v))"
    if "nat (i * v) \<le> k \<and> k < nat (i * v + v)"
  proof -
    from that iv v have "k - nat (i * v) < nat v" by linarith
    then show ?thesis by simp
  qed
  ultimately show "nb ! k = (if nat (i * v) \<le> k \<and> k < nat (i * v + v)
                   then lsm ?row (k - nat (i * v)) else buf ! k)"
    by simp
qed

lemma SetLogits_loop_result:
  "0 \<le> vocab_size (params search) \<Longrightarrow>
   int (length (next_token_scores search)) = n * vocab_size (params search) \<Longrightarrow>
   int (length logits) = L * n * vocab_size (params search) \<Longrightarrow> 1 \<le> L \<Longrightarrow> 0 \<le> i \<Longrightarrow>
   cur = (i * L + (L - 1)) * vocab_size (params search) \<Longrightarrow>
   \<exists>search'. SetLogits_loop lsm logits L n cur search i = Inr search' \<and>
      params search' = params search \<and> sequences search' = sequences search \<and>
      done_cpu search' = done_cpu search \<and>
      length (next_token_scores search') = length (next_token_scores search) \<and>
      (\<forall>j t. i \<le> j \<and> j < n \<and> 0 \<le> t \<and> t < vocab_size (params search) \<longrightarrow>
         next_token_scores search' ! nat (j * vocab_size (params search) + t) =
           lsm (span_elems logits (last_position (params search) L j)) (nat t)) \<and>
      (\<forall>k. k < nat (i * vocab_size (params search)) \<longrightarrow>
         next_token_scores search' ! k = next_token_scores search ! k)"
proof (induction lsm logits L n cur search i rule: SetLogits_loop.induct)
  case (1 lsm logits L n cur search i)
  let ?v = "vocab_size (params search)"
  let ?buf = "next_token_scores search"
  note v = "1.prems"(1) and lbuf = "1.prems"(2) and llog = "1.prems"(3)
    and L = "1.prems"(4) and i = "1.prems"(5) and cur = "1.prems"(6)
  show ?case
  proof (cases "i < n")
    case False
    then show ?thesis by simp
  next
    case True
    let ?source = "\<lparr>span_offset = cur, span_size = ?v\<rparr>"
    let ?target = "\<lparr>span_offset = i * ?v, span_size = ?v\<rparr>"
    let ?nb = "Launch_log_softmax lsm (cudaMemcpy ?buf ?target logits ?source) ?target"
    let ?s1 = "search\<lparr>next_token_scores := ?nb\<rparr>"
    have iv: "0 \<le> i * ?v" using v i by simp
    have tgt: "i * ?v + ?v \<le> int (length ?buf)"
      unfolding lbuf using v True by (rule row_within)
    have cur0: "0 \<le> cur"
      unfolding cur using v i L by simp
    have "(i * L + (L - 1)) * ?v + ?v = (i + 1) * (L * ?v)"
      by (simp add: algebra_simps)
    moreover have "(i + 1) * (L * ?v) \<le> n * (L * ?v)"
      using True v L by (intro mult_right_mono) auto
    ultimately have src: "cur + ?v \<le> int (length logits)"
      unfolding cur llog by (simp add: mult.assoc mult.left_commute)
    have source: "subspan (whole_span logits) cur ?v = Inr ?source"
      using v cur0 src by (simp add: subspan_def whole_span_def)
    have target: "subspan (whole_span ?buf) (i * ?v) ?v = Inr ?target"
      using v iv tgt by (simp add: subspan_def whole_span_def)
    note step = SetLogits_step [OF v i tgt cur0 src refl refl refl, of lsm]
    have rec: "SetLogits_loop lsm logits L n cur search i =
        SetLogits_loop lsm logits L n (cur + L * ?v) ?s1 (i + 1)"
      using True source target by (simp add: Let_def)
    have lastpos: "last_position (params search) L i = ?source"
      by (simp add: last_position_def cur)
    have "\<exists>search'. SetLogits_loop lsm logits L n (cur + L * ?v) ?s1 (i + 1) = Inr search' \<and>
      params search' = params ?s1 \<and> sequences search' = sequences ?s1 \<and>
      done_cpu search' = done_cpu ?s1 \<and>
      length (next_token_scores search') = length (next_token_scores ?s1) \<and>
      (\<forall>j t. i + 1 \<le> j \<and> j < n \<and> 0 \<le> t \<and> t < vocab_size (params ?s1) \<longrightarrow>
         next_token_scores search' ! nat (j * vocab_size (params ?s1) + t) =
           lsm (span_elems logits (last_position (params ?s1) L j)) (nat t)) \<and>
      (\<forall>k. k < nat ((i + 1) * vocab_size (params ?s1)) \<longrightarrow>
         next_token_scores search' ! k = next_token_scores ?s1 ! k)"
    proof (rule "1.IH" [OF True source target refl refl refl])
      show "0 \<le> vocab_size (params ?s1)" using v by simp
      show "int (length (next_token_scores ?s1)) = n * vocab_size (params ?s1)"
        using step(1) lbuf by simp
      show "int (length logits) = L * n * vocab_size (params ?s1)" using llog by simp
      show "1 \<le> L" by (rule L)
      show "0 \<le> i + 1" using i by simp
      show "cur + L * ?v = ((i + 1) * L + (L - 1)) * vocab_size (params ?s1)"
        by (simp add: cur algebra_simps)
    qed
    then obtain search' where
      r: "SetLogits_loop lsm logits L n (cur + L * ?v) ?s1 (i + 1) = Inr search'"
      and same: "params search' = params search" "sequences search' = sequences search"
        "done_cpu search' = done_cpu search"
        "length (next_token_scores search') = length ?nb"
      and later: "\<And>j t. i + 1 \<le> j \<and> j < n \<and> 0 \<le> t \<and> t < ?v \<Longrightarrow>
         next_token_scores search' ! nat (j * ?v + t) =
           lsm (span_elems logits (last_position (params search) L j)) (nat t)"
      and earlier: "\<And>k. k < nat ((i + 1) * ?v) \<Longrightarrow> next_token_scores search' ! k = ?nb ! k"
      by auto
    have rows: "next_token_scores search' ! nat (j * ?v + t) =
           lsm (span_elems logits (last_position (params search) L j)) (nat t)"
      if jt: "i \<le> j \<and> j < n \<and> 0 \<le> t \<and> t < ?v" for j t
    proof (cases "j = i")
      case False
      with jt later show ?thesis by simp
    next
      case True
      have k: "nat (i * ?v + t) < nat ((i + 1) * ?v)" "nat (i * ?v) \<le> nat (i * ?v + t)"
        "nat (i * ?v + t) < nat (i * ?v + ?v)" "nat (i * ?v + t) - nat (i * ?v) = nat t"
        using jt iv by (simp_all add: algebra_simps nat_add_distrib)
      from earlier [OF k(1)] step(2) [of "nat (i * ?v + t)"] k
      show ?thesis by (simp add: True lastpos)
    qed
    have before: "next_token_scores search' ! k = ?buf ! k" if "k < nat (i * ?v)" for k
    proof -
      from that iv v have "k < nat ((i + 1) * ?v)"
        by (simp add: algebra_simps nat_add_distrib)
      from earlier [OF this] step(2) [of k] that show ?thesis by simp
    qed
    from r same rows before step(1) show ?thesis
      unfolding rec by simp
  qed
qed

lemma SetLogits_positive:
  assumes "0 < BatchBeamSize (params search) * vocab_size (params search)"
  shows "SetLogits lsm search logits =
     (if int (length logits) = BatchBeamSize (params search) * vocab_size (params search)
      then SetLogits_loop lsm logits 1 (BatchBeamSize (params search)) 0 search 0
      else Inl AssertionFailed)"
proof -
  define d where "d = BatchBeamSize (params search) * vocab_size (params search)"
  define n where "n = int (length logits)"
  have d: "0 < d" using assms by (simp only: d_def)
  have unfolded: "SetLogits lsm search logits =
     (if d = 0 then Inl DivisionByZero
      else if n mod d \<noteq> 0 then Inl AssertionFailed
      else if n div d \<noteq> 1 then Inl AssertionFailed
      else SetLogits_loop lsm logits (n div d) (BatchBeamSize (params search))
             ((n div d - 1) * vocab_size (params search)) search 0)"
    by (simp only: SetLogits_def Let_def d_def n_def)
  show ?thesis
  proof (cases "n = d")
    case True
    with d have "n mod d = 0" "n div d = 1" "d \<noteq> 0" by simp_all
    then have "SetLogits lsm search logits =
        SetLogits_loop lsm logits 1 (BatchBeamSize (params search))
          ((1 - 1) * vocab_size (params search)) search 0"
      unfolding unfolded by (simp only: if_False simp_thms)
    with True show ?thesis
      unfolding d_def n_def by (simp del: SetLogits_loop.simps)
  next
    case False
    have "n mod d \<noteq> 0 \<or> n div d \<noteq> 1"
    proof (rule ccontr)
      assume "\<not> (n mod d \<noteq> 0 \<or> n div d \<noteq> 1)"
      then have "n mod d = 0" "n div d = 1" by simp_all
      with div_mult_mod_eq [of n d] have "n = d" by simp
      with False show False by simp
    qed
    moreover from d have "d \<noteq> 0" by simp
    ultimately have "SetLogits lsm search logits = Inl AssertionFailed"
      unfolding unfolded by auto
    with False show ?thesis
      unfolding d_def n_def by (simp del: SetLogits_loop.simps)
  qed
qed

text \<open>
  C3. With a positive \<open>batch_beam_size * vocab_size\<close>, \<^verbatim>\<open>SetLogits\<close> fails an assertion on
  every logits buffer whose size is not exactly that product: a size that is no multiple of it
  fails the first assertion, every other multiple (zero included) the second. A buffer of
  exactly that size passes both, and the call succeeds.
\<close>

theorem SetLogits_rejects:
  assumes "0 < BatchBeamSize (params search) * vocab_size (params search)"
  shows "(int (length logits) \<noteq> BatchBeamSize (params search) * vocab_size (params search) \<longrightarrow>
            SetLogits lsm search logits = Inl AssertionFailed) \<and>
         (int (length logits) = BatchBeamSize (params search) * vocab_size (params search) \<and>
          scores_allocated search \<longrightarrow>
            (\<exists>search'. SetLogits lsm search logits = Inr search'))"
proof (intro conjI impI)
  assume "int (length logits) \<noteq> BatchBeamSize (params search) * vocab_size (params search)"
  then show "SetLogits lsm search logits = Inl AssertionFailed"
    by (simp add: SetLogits_positive [OF assms])
next
  let ?v = "vocab_size (params search)"
  let ?n = "BatchBeamSize (params search)"
  assume a: "int (length logits) = ?n * ?v \<and> scores_allocated search"
  then have "0 \<le> ?v" "int (length (next_token_scores search)) = ?n * ?v"
    "int (length logits) = 1 * ?n * ?v"
    by (simp_all add: scores_allocated_def)
  from SetLogits_loop_result [OF this, of 0 0 lsm]
  obtain search' where "SetLogits_loop lsm logits 1 ?n 0 search 0 = Inr search'"
    by auto
  with a show "\<exists>search'. SetLogits lsm search logits = Inr search'"
    by (simp add: SetLogits_positive [OF assms])
qed

theorem SetLogits_rejects_witness:
  "0 < BatchBeamSize (params (example_search 2)) * vocab_size (params (example_search 2)) \<and>
   int (length example_logits) \<noteq>
     BatchBeamSize (params (example_search 2)) * vocab_size (params (example_search 2)) \<and>
   SetLogits log_softmax (example_search 2) example_logits = Inl AssertionFailed \<and>
   SetLogits log_softmax (example_search 2) (take 7 example_logits) = Inl AssertionFailed \<and>
   SetLogits log_softmax (example_search 2) [] = Inl AssertionFailed \<and>
   scores_allocated (example_search 2) \<and>
   (\<exists>search'. SetLogits log_softmax (example_search 2) (take 6 example_logits) = Inr search')"
proof -
  have h: "0 < BatchBeamSize (params (example_search 2)) * vocab_size (params (example_search 2))"
    by (simp add: example_sizes)
  have l: "int (length example_logits) \<noteq>
     BatchBeamSize (params (example_search 2)) * vocab_size (params (example_search 2))"
    "int (length (take 7 example_logits)) \<noteq>
     BatchBeamSize (params (example_search 2)) * vocab_size (params (example_search 2))"
    "int (length ([] :: ScoreType list)) \<noteq>
     BatchBeamSize (params (example_search 2)) * vocab_size (params (example_search 2))"
    "int (length (take 6 example_logits)) =
     BatchBeamSize (params (example_search 2)) * vocab_size (params (example_search 2))"
    by (simp_all add: example_sizes example_logits_def)
  from SetLogits_rejects [OF h, of example_logits log_softmax]
    SetLogits_rejects [OF h, of "take 7 example_logits" log_softmax]
    SetLogits_rejects [OF h, of "[]" log_softmax]
    SetLogits_rejects [OF h, of "take 6 example_logits" log_softmax]
    h l example_search_allocated [of 2]
  show ?thesis by blast
qed

text \<open>
  C10, as stated, fails: on a buffer of two positions per slot \<^verbatim>\<open>SetLogits\<close> stops at the
  assertion \<open>input_length == 1\<close> and computes no row.
\<close>

theorem SetLogits_two_positions_counterexample:
  "int (length example_logits) =
     2 * BatchBeamSize (params (example_search 2)) * vocab_size (params (example_search 2)) \<and>
   SetLogits log_softmax (example_search 2) example_logits = Inl AssertionFailed"
  by (simp add: SetLogits_def example_sizes example_logits_def Let_def)

text \<open>
  C10, amended. The loop of lines 88-96, run with \<open>input_length = L \<ge> 1\<close> on a buffer of
  \<open>L * batch_beam_size * vocab_size\<close> logits, reads only the last position of each slot: the
  row of slot \<open>i\<close> is the log-softmax of the \<open>vocab_size\<close> logits that start at
  \<open>(i * L + (L - 1)) * vocab_size\<close>. \<^verbatim>\<open>SetLogits\<close> reaches the loop, and returns its
  result, only for \<open>L = 1\<close>; for every other \<open>L\<close> it fails the assertion.
\<close>

theorem SetLogits_last_position:
  assumes "scores_allocated search"
    and "0 < BatchBeamSize (params search) * vocab_size (params search)"
    and "int (length logits) = L * BatchBeamSize (params search) * vocab_size (params search)"
    and "1 \<le> L"
  shows "\<exists>search'.
      SetLogits_loop lsm logits L (BatchBeamSize (params search))
        ((L - 1) * vocab_size (params search)) search 0 = Inr search' \<and>
      (\<forall>i t. 0 \<le> i \<and> i < BatchBeamSize (params search) \<and>
             0 \<le> t \<and> t < vocab_size (params search) \<longrightarrow>
         score_at search' i t = lsm (span_elems logits (last_position (params search) L i)) (nat t)) \<and>
      SetLogits lsm search logits = (if L = 1 then Inr search' else Inl AssertionFailed)"
proof -
  let ?v = "vocab_size (params search)"
  let ?n = "BatchBeamSize (params search)"
  from assms(1) have v: "0 \<le> ?v" and lbuf: "int (length (next_token_scores search)) = ?n * ?v"
    by (simp_all add: scores_allocated_def)
  have cur: "(L - 1) * ?v = (0 * L + (L - 1)) * ?v" by simp
  from SetLogits_loop_result [OF v lbuf assms(3,4) order_refl cur, of lsm]
  obtain search' where
    r: "SetLogits_loop lsm logits L ?n ((L - 1) * ?v) search 0 = Inr search'"
    and p: "params search' = params search"
    and rows: "\<forall>j t. 0 \<le> j \<and> j < ?n \<and> 0 \<le> t \<and> t < ?v \<longrightarrow>
         next_token_scores search' ! nat (j * ?v + t) =
           lsm (span_elems logits (last_position (params search) L j)) (nat t)"
    by blast
  have "SetLogits lsm search logits = (if L = 1 then Inr search' else Inl AssertionFailed)"
  proof (cases "L = 1")
    case True
    with r assms(3) show ?thesis by (simp add: SetLogits_positive [OF assms(2)])
  next
    case False
    have "int (length logits) \<noteq> ?n * ?v"
    proof
      assume "int (length logits) = ?n * ?v"
      with assms(3) have "(L - 1) * (?n * ?v) = 0" by (simp add: algebra_simps)
      moreover from assms(2) have "?n * ?v \<noteq> 0" by linarith
      ultimately show False using False by (simp del: mult_eq_0_iff add: mult_eq_0_iff [of "L - 1"])
    qed
    with False show ?thesis by (simp add: SetLogits_positive [OF assms(2)])
  qed
  with r rows p show ?thesis by (auto simp: score_at_def)
qed

theorem SetLogits_last_position_witness:
  "scores_allocated (example_search 2) \<and>
   0 < BatchBeamSize (params (example_search 2)) * vocab_size (params (example_search 2)) \<and>
   int (length example_logits) =
     2 * BatchBeamSize (params (example_search 2)) * vocab_size (params (example_search 2)) \<and>
   (\<exists>search'.
      SetLogits_loop log_softmax example_logits 2 (BatchBeamSize (params (example_search 2)))
        ((2 - 1) * vocab_size (params (example_search 2))) (example_search 2) 0 = Inr search' \<and>
      score_at search' 0 1 = log_softmax [3, 4, 5] 1 \<and>
      score_at search' 1 2 = log_softmax [9, 10, 11] 2)"
proof -
  have h: "0 < BatchBeamSize (params (example_search 2)) * vocab_size (params (example_search 2))"
    "int (length example_logits) =
     2 * BatchBeamSize (params (example_search 2)) * vocab_size (params (example_search 2))"
    "(1::int) \<le> 2"
    by (simp_all add: example_sizes example_logits_def)
  have rows: "span_elems example_logits (last_position (params (example_search 2)) 2 0) = [3, 4, 5]"
    "span_elems example_logits (last_position (params (example_search 2)) 2 1) = [9, 10, 11]"
    by (simp_all add: span_elems_def last_position_def example_sizes example_logits_def
        eval_nat_numeral)
  from SetLogits_last_position [OF example_search_allocated h, of log_softmax]
  obtain search' where
    r: "SetLogits_loop log_softmax example_logits 2 (BatchBeamSize (params (example_search 2)))
        ((2 - 1) * vocab_size (params (example_search 2))) (example_search 2) 0 = Inr search'"
    and s: "\<forall>i t. 0 \<le> i \<and> i < BatchBeamSize (params (example_search 2)) \<and>
             0 \<le> t \<and> t < vocab_size (params (example_search 2)) \<longrightarrow>
         score_at search' i t =
           log_softmax (span_elems example_logits (last_position (params (example_search 2)) 2 i)) (nat t)"
    by blast
  from s have "score_at search' 0 1 = log_softmax [3, 4, 5] 1"
    "score_at search' 1 2 = log_softmax [9, 10, 11] 2"
    unfolding example_sizes by (simp_all add: rows [unfolded example_sizes])
  with r h example_search_allocated [of 2] show ?thesis by blast
qed

section \<open>The beam search step\<close>

lemma run_kernel_host:
  "params (run_kernel ext k search) = params search"
  "sequences (run_kernel ext k search) = sequences search"
  "beam_scorer (run_kernel ext k search) = beam_scorer search"
  "cuda_stream (run_kernel ext k search) = cuda_stream search"
  "done_cpu (run_kernel ext k search) = done_cpu search"
  by (cases k; simp add: split_def Let_def)+

lemma run_all_host:
  "params (run_all ext ks search) = params search \<and>
   sequences (run_all ext ks search) = sequences search \<and>
   beam_scorer (run_all ext ks search) = beam_scorer search \<and>
   cuda_stream (run_all ext ks search) = cuda_stream search \<and>
   done_cpu (run_all ext ks search) = done_cpu search"
  unfolding run_all_def
  by (induction ks arbitrary: search) (simp_all add: run_kernel_host)

lemma run_all_append:
  "run_all ext (ks @ ks') search = run_all ext ks' (run_all ext ks search)"
  by (simp add: run_all_def)

lemma launch_leaves_buffers:
  "topk_next_scores (launch k search) = topk_next_scores search"
  "topk_next_tokens (launch k search) = topk_next_tokens search"
  "topk_next_indices (launch k search) = topk_next_indices search"
  "next_token_scores (launch k search) = next_token_scores search"
  by (simp_all add: launch_def)

lemmas example_beam_defs = example_beam_def Search_Cuda_ctor_def example_params_def
  example_sequences_def BeamSearch_Cuda.defs Search_Cuda.defs example_scores_def
  example_collaborators_def BatchBeamSize_def

text \<open>The example object is what the constructor builds, with scores filled in.\<close>

lemma example_beam_constructed:
  assumes "1 < beams"
  shows "BeamSearch_Cuda_ctor (example_params\<lparr>num_beams := beams, vocab_size := 5\<rparr>)
           (example_sequences 2) False ([], [], []) [0, 0, 0, 0] [0, 0, 0, 0] [0, 0, 0, 0] =
         Inr ((example_beam beams)\<lparr>next_token_scores := replicate (nat (beams * 5)) 0\<rparr>)"
proof -
  from assms have "4 \<le> nat (2 * beams)" by simp
  then have "take (nat (2 * beams)) [a, b, c, d] = [a, b, c, d]" for a b c d :: 'a
    by simp
  with assms show ?thesis
    by (simp add: BeamSearch_Cuda_ctor_def example_beam_def Search_Cuda_ctor_def
        example_params_def BatchBeamSize_def BeamSearch_Cuda.defs Search_Cuda.defs Let_def)
qed

lemma example_step:
  "BeamSearch_NextTokensFromLogits example_collaborators (example_beam 2) =
     Inr ((example_beam 2)\<lparr>next_token_scores := [1, 7, 3, 7, 0, 1, 8, 3, 7, 4],
            next_tokens := [1, 1, 3, 3],
            beam_scorer := ([8, 7, 7, 7], [1, 1, 3, 3], [1, 0, 0, 1]),
            topk_next_tokens := [1, 1, 3, 3], topk_next_indices := [1, 0, 0, 1],
            topk_next_scores := [8, 7, 7, 7]\<rparr>)"
  by (simp add: BeamSearch_NextTokensFromLogits_def BeamSearch_launches_def launch_def
      cudaStreamSynchronize_def run_all_def BeamSearch_scorer_Process_def
      example_beam_defs Let_def AddProbs_def TopKSelector_def unpack_def
      batch_candidates_def two_stage_top_k_def merge_stage_def partition_stage_def top_k_def
      beam_row_def vocab_part_def part_size_def best_first_def upt_rec)

text \<open>
  Before the synchronization the host would hand the scorer the candidate buffers of the
  step before: a launch changes no buffer.
\<close>

lemma Process_before_synchronize:
  assumes "BeamSearch_launches ext search = Inr launched"
  shows "beam_scorer (BeamSearch_scorer_Process ext launched) =
       Process ext (beam_scorer search) (sequences search)
         (take (nat (BatchBeamSize (params search) * 2)) (topk_next_scores search))
         (take (nat (BatchBeamSize (params search) * 2)) (topk_next_tokens search))
         (take (nat (BatchBeamSize (params search) * 2)) (topk_next_indices search))"
  using assms
  by (auto simp: BeamSearch_launches_def BeamSearch_scorer_Process_def launch_def Let_def
      split: if_splits)

text \<open>
  C4. With more than 32 beams \<^verbatim>\<open>BeamSearch_Cuda::NextTokensFromLogits\<close> fails the assertion:
  it returns no search object, so no candidate reaches the scorer.
\<close>

theorem NextTokensFromLogits_rejects:
  assumes "num_beams (params search) > 32"
  shows "BeamSearch_NextTokensFromLogits ext search = Inl AssertionFailed"
proof -
  from assms have "BeamSearch_launches ext search = Inl AssertionFailed"
    by (simp add: BeamSearch_launches_def Let_def)
  then show ?thesis
    by (simp add: BeamSearch_NextTokensFromLogits_def)
qed

theorem NextTokensFromLogits_rejects_witness:
  "BeamSearch_Cuda_ctor (example_params\<lparr>num_beams := 33, vocab_size := 5\<rparr>)
      (example_sequences 2) False ([], [], []) [0, 0, 0, 0] [0, 0, 0, 0] [0, 0, 0, 0] =
     Inr ((example_beam 33)\<lparr>next_token_scores := replicate (nat (33 * 5)) 0\<rparr>) \<and>
   num_beams (params (example_beam 33)) > 32 \<and>
   BeamSearch_NextTokensFromLogits example_collaborators (example_beam 33) = Inl AssertionFailed"
proof -
  have h: "num_beams (params (example_beam 33)) > 32"
    by (simp add: example_beam_defs)
  have c: "(1::int) < 33" by simp
  from NextTokensFromLogits_rejects [OF h, of example_collaborators] h
    example_beam_constructed [OF c]
  show ?thesis by blast
qed

text \<open>
  C7. In a beam search step that returns, \<^verbatim>\<open>Process\<close> is called on the state that
  \<^verbatim>\<open>cudaStreamSynchronize\<close> leaves: no kernel is pending there, the scores are those the
  add-probabilities kernel of this step wrote (after all work enqueued earlier), and the three
  candidate buffers are the output of this step's top-k kernel on those scores. These buffers
  are what the scorer receives.
\<close>

theorem NextTokensFromLogits_synchronized:
  assumes "BeamSearch_NextTokensFromLogits ext search = Inr search'"
  shows "\<exists>launched device scores tokens indices.
     BeamSearch_launches ext search = Inr launched \<and>
     device = cudaStreamSynchronize ext launched \<and>
     search' = BeamSearch_scorer_Process ext device \<and>
     cuda_stream device = [] \<and>
     next_token_scores device =
       AddProbsKernel ext (next_token_scores (run_all ext (cuda_stream search) search))
         (GetNextScores ext (beam_scorer search))
         (batch_size (params search)) (num_beams (params search)) (vocab_size (params search)) \<and>
     (scores, tokens, indices) =
       BeamSearchTopK ext (next_token_scores device)
         (batch_size (params search)) (num_beams (params search)) (vocab_size (params search))
         (2 * num_beams (params search)) \<and>
     topk_next_scores device = scores \<and> topk_next_tokens device = tokens \<and>
     topk_next_indices device = indices \<and>
     beam_scorer search' =
       Process ext (beam_scorer search) (sequences search)
         (take (nat (BatchBeamSize (params search) * 2)) scores)
         (take (nat (BatchBeamSize (params search) * 2)) tokens)
         (take (nat (BatchBeamSize (params search) * 2)) indices)"
proof -
  let ?p = "params search"
  let ?a = "K_AddProbs (GetNextScores ext (beam_scorer search))
              (batch_size ?p) (num_beams ?p) (vocab_size ?p)"
  let ?t = "K_BeamSearchTopK (batch_size ?p) (num_beams ?p) (vocab_size ?p) (2 * num_beams ?p)"
  let ?launched = "launch ?t (launch ?a search)"
  let ?device = "cudaStreamSynchronize ext ?launched"
  let ?earlier = "run_all ext (cuda_stream search) search"
  from assms have le: "num_beams ?p \<le> 32"
    by (auto simp: BeamSearch_NextTokensFromLogits_def BeamSearch_launches_def Let_def
        split: if_splits)
  then have l: "BeamSearch_launches ext search = Inr ?launched"
    by (simp add: BeamSearch_launches_def Let_def)
  with assms have s': "search' = BeamSearch_scorer_Process ext ?device"
    by (simp add: BeamSearch_NextTokensFromLogits_def)
  have q: "cuda_stream ?launched = cuda_stream search @ [?a, ?t]"
    by (simp add: launch_def)
  have dev: "?device = (run_kernel ext ?t (run_kernel ext ?a
                 (run_all ext (cuda_stream search) ?launched)))\<lparr>cuda_stream := []\<rparr>"
    unfolding cudaStreamSynchronize_def q run_all_append by (simp add: run_all_def)
  have same: "run_all ext ks ?launched = (run_all ext ks search)\<lparr>cuda_stream := cuda_stream ?launched\<rparr>"
    for ks
    unfolding run_all_def
  proof (induction ks rule: rev_induct)
    case Nil
    show ?case by (simp add: launch_def)
  next
    case (snoc k ks)
    then show ?case by (cases k) (simp_all add: split_def Let_def)
  qed
  note h = run_all_host [of ext "cuda_stream search" search]
  have scores: "next_token_scores ?device =
       AddProbsKernel ext (next_token_scores ?earlier) (GetNextScores ext (beam_scorer search))
         (batch_size ?p) (num_beams ?p) (vocab_size ?p)"
    unfolding dev same by (simp add: split_def Let_def)
  obtain sc tk ix where topk: "(sc, tk, ix) =
       BeamSearchTopK ext (next_token_scores ?device)
         (batch_size ?p) (num_beams ?p) (vocab_size ?p) (2 * num_beams ?p)"
    by (metis prod_cases3)
  have bufs: "topk_next_scores ?device = sc" "topk_next_tokens ?device = tk"
    "topk_next_indices ?device = ix"
    using topk [unfolded scores] unfolding dev same
    by (simp_all add: split_def Let_def) (metis fst_conv snd_conv)+
  have host: "params ?device = ?p" "sequences ?device = sequences search"
    "beam_scorer ?device = beam_scorer search"
    unfolding dev same using h by (simp_all add: split_def Let_def)
  have proc: "beam_scorer search' =
       Process ext (beam_scorer search) (sequences search)
         (take (nat (BatchBeamSize ?p * 2)) sc) (take (nat (BatchBeamSize ?p * 2)) tk)
         (take (nat (BatchBeamSize ?p * 2)) ix)"
    unfolding s' BeamSearch_scorer_Process_def Let_def by (simp add: host bufs)
  have empty: "cuda_stream ?device = []"
    by (simp add: cudaStreamSynchronize_def)
  from l s' empty scores topk bufs proc show ?thesis by blast
qed

theorem NextTokensFromLogits_synchronized_witness:
  "BeamSearch_NextTokensFromLogits example_collaborators (example_beam 2) =
     Inr ((example_beam 2)\<lparr>next_token_scores := [1, 7, 3, 7, 0, 1, 8, 3, 7, 4],
            next_tokens := [1, 1, 3, 3],
            beam_scorer := ([8, 7, 7, 7], [1, 1, 3, 3], [1, 0, 0, 1]),
            topk_next_tokens := [1, 1, 3, 3], topk_next_indices := [1, 0, 0, 1],
            topk_next_scores := [8, 7, 7, 7]\<rparr>) \<and>
   (\<exists>device. cuda_stream device = [] \<and>
      next_token_scores device = [1, 7, 3, 7, 0, 1, 8, 3, 7, 4] \<and>
      topk_next_scores device = [8, 7, 7, 7] \<and>
      topk_next_tokens device = [1, 1, 3, 3] \<and>
      topk_next_indices device = [1, 0, 0, 1] \<and>
      (example_beam 2)\<lparr>next_token_scores := [1, 7, 3, 7, 0, 1, 8, 3, 7, 4],
            next_tokens := [1, 1, 3, 3],
            beam_scorer := ([8, 7, 7, 7], [1, 1, 3, 3], [1, 0, 0, 1]),
            topk_next_tokens := [1, 1, 3, 3], topk_next_indices := [1, 0, 0, 1],
            topk_next_scores := [8, 7, 7, 7]\<rparr> =
        BeamSearch_scorer_Process example_collaborators device)"
proof -
  let ?ext = "example_collaborators"
  let ?s = "example_beam 2"
  have added: "AddProbsKernel ?ext (next_token_scores (run_all ?ext (cuda_stream ?s) ?s))
         (GetNextScores ?ext (beam_scorer ?s))
         (batch_size (params ?s)) (num_beams (params ?s)) (vocab_size (params ?s)) =
       [1, 7, 3, 7, 0, 1, 8, 3, 7, 4]"
    by (simp add: run_all_def example_beam_defs AddProbs_def upt_rec)
  have topk: "BeamSearchTopK ?ext [1, 7, 3, 7, 0, 1, 8, 3, 7, 4]
         (batch_size (params ?s)) (num_beams (params ?s)) (vocab_size (params ?s))
         (2 * num_beams (params ?s)) = ([8, 7, 7, 7], [1, 1, 3, 3], [1, 0, 0, 1])"
    by (simp add: example_beam_defs TopKSelector_def unpack_def
      batch_candidates_def two_stage_top_k_def merge_stage_def partition_stage_def top_k_def
      beam_row_def vocab_part_def part_size_def best_first_def upt_rec)
  from NextTokensFromLogits_synchronized [OF example_step]
  obtain device scores tokens indices where
    d: "cuda_stream device = []"
      "(example_beam 2)\<lparr>next_token_scores := [1, 7, 3, 7, 0, 1, 8, 3, 7, 4],
            next_tokens := [1, 1, 3, 3],
            beam_scorer := ([8, 7, 7, 7], [1, 1, 3, 3], [1, 0, 0, 1]),
            topk_next_tokens := [1, 1, 3, 3], topk_next_indices := [1, 0, 0, 1],
            topk_next_scores := [8, 7, 7, 7]\<rparr> =
        BeamSearch_scorer_Process example_collaborators device"
      "next_token_scores device = [1, 7, 3, 7, 0, 1, 8, 3, 7, 4]"
    and t: "(scores, tokens, indices) =
        BeamSearchTopK ?ext (next_token_scores device)
         (batch_size (params ?s)) (num_beams (params ?s)) (vocab_size (params ?s))
         (2 * num_beams (params ?s))"
      "topk_next_scores device = scores" "topk_next_tokens device = tokens"
      "topk_next_indices device = indices"
    unfolding added by blast
  from t(1) have "(scores, tokens, indices) = ([8, 7, 7, 7], [1, 1, 3, 3], [1, 0, 0, 1])"
    unfolding d(3) topk .
  with t(2-4) have "topk_next_scores device = [8, 7, 7, 7]"
    "topk_next_tokens device = [1, 1, 3, 3]" "topk_next_indices device = [1, 0, 0, 1]"
    by simp_all
  with d(1-3) example_step show ?thesis by blast
qed

section \<open>The two-stage top-k\<close>

lemma sort_key_set_cong:
  fixes f :: "'a \<Rightarrow> 'b::linorder"
  assumes "inj f" "distinct xs" "distinct ys" "set xs = set ys"
  shows "sort_key f xs = sort_key f ys"
proof (rule map_sorted_distinct_set_unique [of f])
  show "inj_on f (set (sort_key f xs) \<union> set (sort_key f ys))"
    using assms(1) by (rule inj_on_subset) simp
  show "sorted (map f (sort_key f xs))" "sorted (map f (sort_key f ys))"
    by (rule sorted_sort_key)+
  show "distinct (map f (sort_key f xs))"
    using assms(1,2) by (simp add: distinct_map inj_on_subset [OF assms(1)])
  show "distinct (map f (sort_key f ys))"
    using assms(1,3) by (simp add: distinct_map inj_on_subset [OF assms(1)])
  show "set (sort_key f xs) = set (sort_key f ys)"
    using assms(4) by simp
qed

lemma sort_key_sublist:
  fixes f :: "'a \<Rightarrow> 'b::linorder"
  assumes "inj f" "distinct xs" "distinct ys" "set ys \<subseteq> set xs"
  shows "sort_key f ys = filter (\<lambda>x. x \<in> set ys) (sort_key f xs)"
proof -
  have "sort_key f ys = sort_key f (filter (\<lambda>x. x \<in> set ys) xs)"
    using assms by (intro sort_key_set_cong) auto
  then show ?thesis by (simp add: filter_sort)
qed

lemma take_filter_all:
  "(\<forall>x \<in> set (take k zs). P x) \<Longrightarrow> take k (filter P zs) = take k zs"
proof (induction zs arbitrary: k)
  case Nil
  then show ?case by simp
next
  case (Cons z zs)
  then show ?case by (cases k) auto
qed

lemma in_take_filter:
  "x \<in> set (take k zs) \<Longrightarrow> P x \<Longrightarrow> x \<in> set (take k (filter P zs))"
proof (induction zs arbitrary: k)
  case Nil
  then show ?case by simp
next
  case (Cons z zs)
  show ?case
  proof (cases k)
    case 0
    with Cons.prems show ?thesis by simp
  next
    case (Suc n)
    show ?thesis
    proof (cases "P z")
      case True
      with Cons Suc show ?thesis by auto
    next
      case False
      with Cons.prems Suc have "x \<in> set (take n zs)" by auto
      then have "x \<in> set (take (Suc n) zs)"
        by (meson in_set_takeD set_take_subset_set_take le_SucI order_refl subsetD)
      from Cons.IH [OF this Cons.prems(2)] False Suc show ?thesis by simp
    qed
  qed
qed

lemma distinct_concat_map_sub:
  assumes "distinct (concat xss)"
    and "\<And>xs. distinct xs \<Longrightarrow> distinct (g xs)"
    and "\<And>xs. set (g xs) \<subseteq> set xs"
  shows "distinct (concat (map g xss))"
  using assms(1)
proof (induction xss)
  case Nil
  then show ?case by simp
next
  case (Cons xs xss)
  have "set (concat (map g xss)) \<subseteq> set (concat xss)"
    using assms(3) by auto
  with Cons assms(2,3) [of xs] show ?case by auto
qed

lemma top_k_merge:
  fixes f :: "'a \<Rightarrow> 'b::linorder"
  assumes inj: "inj f" and dist: "distinct (concat xss)"
  shows "take k (sort_key f (concat (map (\<lambda>xs. take k (sort_key f xs)) xss))) =
         take k (sort_key f (concat xss))"
proof -
  let ?g = "\<lambda>xs. take k (sort_key f xs)"
  let ?A = "concat xss"
  let ?B = "concat (map ?g xss)"
  let ?S = "sort_key f ?A"
  have dB: "distinct ?B"
    using dist by (rule distinct_concat_map_sub) (auto dest: in_set_takeD)
  have g: "set (?g xs) \<subseteq> set xs" for xs
    using set_take_subset [of k "sort_key f xs"] by simp
  have sub: "set ?B \<subseteq> set ?A"
    using g by fastforce
  have sortB: "sort_key f ?B = filter (\<lambda>x. x \<in> set ?B) ?S"
    using inj dist dB sub by (rule sort_key_sublist)
  have "x \<in> set ?B" if x: "x \<in> set (take k ?S)" for x
  proof -
    from x have "x \<in> set ?A" by (auto dest: in_set_takeD)
    then obtain xs where xs: "xs \<in> set xss" "x \<in> set xs" by auto
    from dist xs(1) have dxs: "distinct xs"
      by (induction xss) auto
    from xs(1) have "set xs \<subseteq> set ?A" by auto
    with inj dist dxs have "sort_key f xs = filter (\<lambda>y. y \<in> set xs) ?S"
      by (rule sort_key_sublist)
    with in_take_filter [OF x, of "\<lambda>y. y \<in> set xs"] xs(2)
    have "x \<in> set (?g xs)" by simp
    with xs(1) show ?thesis by auto
  qed
  then have "take k (filter (\<lambda>x. x \<in> set ?B) ?S) = take k ?S"
    by (intro take_filter_all) blast
  with sortB show ?thesis by simp
qed

lemma concat_chunks:
  "concat (map (\<lambda>j. take n (drop (j * n) xs)) [0 ..< m]) = take (m * n) xs"
proof (induction m)
  case 0
  show ?case by simp
next
  case (Suc m)
  have "Suc m * n = m * n + n" by simp
  then have "take (Suc m * n) xs = take (m * n) xs @ take n (drop (m * n) xs)"
    by (simp only: take_add)
  with Suc show ?case by simp
qed

lemma inj_best_first: "inj best_first"
  by (auto simp: inj_on_def best_first_def prod_eq_iff)

lemma distinct_batch_candidates: "distinct (batch_candidates scores beams vocab b)"
  by (simp add: batch_candidates_def Let_def distinct_zipI2)

lemma length_batch_candidates: "length (batch_candidates scores beams vocab b) \<le> beams * vocab"
  by (simp add: batch_candidates_def Let_def)

lemma parts_cover:
  assumes "1 \<le> parts"
  shows "vocab \<le> parts * part_size vocab parts"
proof -
  let ?n = "vocab + parts - 1"
  have "?n = parts * (?n div parts) + ?n mod parts" by simp
  moreover have "?n mod parts < parts" using assms by simp
  ultimately have "?n < parts * (?n div parts) + parts" by linarith
  with assms show ?thesis by (simp add: part_size_def)
qed

lemma top_k_of_parts:
  assumes "1 \<le> parts" "distinct row" "length row \<le> vocab"
  shows "top_k k (concat (map (\<lambda>p. top_k k (vocab_part row (part_size vocab parts) p)) [0 ..< parts]))
       = top_k k row"
proof -
  let ?ps = "part_size vocab parts"
  let ?xss = "map (vocab_part row ?ps) [0 ..< parts]"
  have all: "concat ?xss = row"
  proof -
    have "concat ?xss = take (parts * ?ps) row"
      unfolding vocab_part_def by (rule concat_chunks)
    moreover have "length row \<le> parts * ?ps"
      using parts_cover [OF assms(1), of vocab] assms(3) by linarith
    ultimately show ?thesis by simp
  qed
  have "top_k k (concat (map (\<lambda>xs. take k (sort_key best_first xs)) ?xss)) = top_k k (concat ?xss)"
    unfolding top_k_def using inj_best_first assms(2)
    by (intro top_k_merge) (simp_all only: all)
  then show ?thesis
    by (simp add: all top_k_def comp_def)
qed

lemma two_stage_eq_naive:
  assumes "1 \<le> parts" "distinct cs" "length cs \<le> beams * vocab"
  shows "two_stage_top_k k parts beams vocab cs = naive_top_k k cs"
proof -
  let ?rows = "map (beam_row cs vocab) [0 ..< beams]"
  have rows: "concat ?rows = cs"
  proof -
    have "concat ?rows = take (beams * vocab) cs"
      unfolding beam_row_def by (rule concat_chunks)
    with assms(3) show ?thesis by simp
  qed
  have row: "distinct (beam_row cs vocab j)" "length (beam_row cs vocab j) \<le> vocab" for j
    using assms(2) by (simp_all add: beam_row_def)
  have "two_stage_top_k k parts beams vocab cs =
        top_k k (concat (map (\<lambda>j. top_k k (beam_row cs vocab j)) [0 ..< beams]))"
    by (simp add: two_stage_top_k_def merge_stage_def partition_stage_def comp_def
        top_k_of_parts [OF assms(1) row])
  also have "\<dots> = top_k k (concat (map (\<lambda>xs. take k (sort_key best_first xs)) ?rows))"
    by (simp add: top_k_def comp_def)
  also have "\<dots> = top_k k (concat ?rows)"
    unfolding top_k_def using inj_best_first assms(2)
    by (intro top_k_merge) (simp_all only: rows)
  finally show ?thesis by (simp add: rows top_k_def naive_top_k_def)
qed

lemma naive_top_k_highest:
  assumes "distinct cs" "c \<in> set (naive_top_k k cs)" "d \<in> set cs" "d \<notin> set (naive_top_k k cs)"
  shows "best_first c < best_first d"
proof -
  let ?S = "sort_key best_first cs"
  have "sorted (map best_first (take k ?S @ drop k ?S))"
    by (simp add: sorted_sort_key del: sorted_map)
  then have le: "\<forall>x \<in> set (take k ?S). \<forall>y \<in> set (drop k ?S). best_first x \<le> best_first y"
    by (simp only: map_append sorted_append) auto
  from assms(3) have "d \<in> set (take k ?S @ drop k ?S)" by simp
  with assms(4) have d: "d \<in> set (drop k ?S)"
    by (simp only: set_append naive_top_k_def) blast
  with le assms(2) have "best_first c \<le> best_first d"
    by (simp add: naive_top_k_def)
  moreover from assms(2,4) have "c \<noteq> d" by blast
  then have "best_first c \<noteq> best_first d"
    using inj_best_first by (simp add: inj_eq)
  ultimately show ?thesis by simp
qed

lemma TopKSelector_eq_naive:
  assumes "1 \<le> parts"
  shows "TopKSelector parts scores batch beams vocab k = naive_selector scores batch beams vocab k"
  unfolding TopKSelector_def naive_selector_def
  by (simp add: two_stage_eq_naive [OF assms distinct_batch_candidates length_batch_candidates])

text \<open>
  C1. For every batch element, every \<open>k\<close> (so \<open>k = 2 * num_beams\<close>), every number of beams
  (so 1, 2, 4 and 8) and every split of the vocabulary into one or more parts, the two-stage
  selection returns the list the naive sort-and-take-\<open>k\<close> over the flattened
  \<open>num_beams \<times> vocab_size\<close> candidates returns: the same scores, tokens and source beams in
  the same order. So do the kernel's output arrays over all batch elements. Every candidate
  left out has a lower score than every candidate returned, or the same score and a later
  position.
\<close>

theorem two_stage_top_k_refines_naive:
  assumes "1 \<le> parts"
  shows "two_stage_top_k k parts beams vocab (batch_candidates scores beams vocab b) =
           naive_top_k k (batch_candidates scores beams vocab b) \<and>
         TopKSelector parts scores batch_size' num_beams' vocab_size' k' =
           naive_selector scores batch_size' num_beams' vocab_size' k' \<and>
         (\<forall>c d. c \<in> set (two_stage_top_k k parts beams vocab (batch_candidates scores beams vocab b)) \<and>
                d \<in> set (batch_candidates scores beams vocab b) \<and>
                d \<notin> set (two_stage_top_k k parts beams vocab (batch_candidates scores beams vocab b))
            \<longrightarrow> fst d < fst c \<or> (fst d = fst c \<and> snd c < snd d))"
proof -
  let ?cs = "batch_candidates scores beams vocab b"
  have eq: "two_stage_top_k k parts beams vocab ?cs = naive_top_k k ?cs"
    using assms distinct_batch_candidates length_batch_candidates by (rule two_stage_eq_naive)
  have "fst d < fst c \<or> (fst d = fst c \<and> snd c < snd d)"
    if "c \<in> set (naive_top_k k ?cs)" "d \<in> set ?cs" "d \<notin> set (naive_top_k k ?cs)" for c d
  proof -
    from naive_top_k_highest [OF distinct_batch_candidates that]
    show ?thesis by (auto simp: best_first_def less_prod_def)
  qed
  with eq TopKSelector_eq_naive [OF assms] show ?thesis by (simp only:) blast
qed

theorem two_stage_top_k_refines_naive_witness:
  "(1::nat) \<le> 2 \<and>
   batch_candidates example_scores 2 5 0 =
     [(1, 0), (7, 1), (3, 2), (7, 3), (0, 4), (2, 5), (9, 6), (4, 7), (8, 8), (5, 9)] \<and>
   two_stage_top_k 4 2 2 5 (batch_candidates example_scores 2 5 0) =
     [(9, 6), (8, 8), (7, 1), (7, 3)] \<and>
   naive_top_k 4 (batch_candidates example_scores 2 5 0) = [(9, 6), (8, 8), (7, 1), (7, 3)] \<and>
   TopKSelector 2 example_scores 1 2 5 4 = ([9, 8, 7, 7], [1, 3, 1, 3], [1, 1, 0, 0]) \<and>
   naive_selector example_scores 1 2 5 4 = ([9, 8, 7, 7], [1, 3, 1, 3], [1, 1, 0, 0])"
proof -
  have h: "(1::nat) \<le> 2" by simp
  have cs: "batch_candidates example_scores 2 5 0 =
     [(1, 0), (7, 1), (3, 2), (7, 3), (0, 4), (2, 5), (9, 6), (4, 7), (8, 8), (5, 9)]"
    by (simp add: batch_candidates_def example_scores_def Let_def upt_rec)
  have naive: "naive_top_k 4 (batch_candidates example_scores 2 5 0) =
      [(9, 6), (8, 8), (7, 1), (7, 3)]"
    by (simp add: cs naive_top_k_def best_first_def)
  have sel: "naive_selector example_scores 1 2 5 4 = ([9, 8, 7, 7], [1, 3, 1, 3], [1, 1, 0, 0])"
    by (simp add: naive_selector_def unpack_def naive upt_rec)
  from two_stage_top_k_refines_naive [OF h, where k = 4 and beams = 2 and vocab = 5
      and scores = example_scores and b = 0 and batch_size' = 1 and num_beams' = 2
      and vocab_size' = 5 and k' = 4] h cs naive sel
  show ?thesis by simp
qed

section \<open>Sequence length in greedy search\<close>















section \<open>BeamSearch\_Cuda::IsDone\<close>

text \<open>
  C5. \<^verbatim>\<open>BeamSearch_Cuda::IsDone()\<close> lets the scorer update its batch elements and then
  returns true exactly when every batch element is \<open>DONE\<close> after that update, or the
  sequence length equals \<open>max_length\<close>. After the update a batch element is \<open>DONE\<close>
  exactly when it was already, or it has collected \<open>num_beams\<close> completions, or all its live
  beams are terminated, or the length cap is hit.
\<close>

theorem BeamSearch_IsDone_all_DONE:
  fixes search :: "BeamSearchScorer_Cuda BeamSearch_Cuda"
    and ext :: "BeamSearchScorer_Cuda collaborators"
  defines "scorer \<equiv> beam_scorer search"
  defines "result \<equiv> BeamSearch_IsDone (with_scorer ext) search"
  shows "fst result =
           ((\<forall>b \<in> set (beam_states (beam_scorer (snd result))). state b = DONE) \<or>
            GetSequenceLength search = max_length (params search)) \<and>
         beam_scorer (snd result) = Scorer_IsDone scorer \<and>
         length (beam_states (beam_scorer (snd result))) = length (beam_states scorer) \<and>
         (\<forall>i < length (beam_states scorer).
            state (beam_states (beam_scorer (snd result)) ! i) = DONE \<longleftrightarrow>
              (state (beam_states scorer ! i) = DONE \<or>
               int (length (completed (beam_states scorer ! i))) \<ge> scorer_num_beams scorer \<or>
               (\<forall>h \<in> set (live (beam_states scorer ! i)). done_flag h) \<or>
               scorer_sequence_length scorer = scorer_max_length scorer))"
proof -
  have r: "result = (Scorer_IsDoneLater (Scorer_IsDone scorer) \<or>
                       GetSequenceLength search = max_length (params search),
                     search\<lparr>beam_scorer := Scorer_IsDone scorer\<rparr>)"
    by (simp add: result_def scorer_def BeamSearch_IsDone_def with_scorer_def Let_def
        GetSequenceLength_def)
  have later: "Scorer_IsDoneLater sc = (\<forall>b \<in> set (beam_states sc). state b = DONE)" for sc
    by (simp add: Scorer_IsDoneLater_def list_all_iff)
  have each: "state (beam_states (Scorer_IsDone scorer) ! i) = DONE \<longleftrightarrow>
      (state (beam_states scorer ! i) = DONE \<or>
       int (length (completed (beam_states scorer ! i))) \<ge> scorer_num_beams scorer \<or>
       (\<forall>h \<in> set (live (beam_states scorer ! i)). done_flag h) \<or>
       scorer_sequence_length scorer = scorer_max_length scorer)"
    if "i < length (beam_states scorer)" for i
  proof (cases "state (beam_states scorer ! i)")
    case ACTIVE
    with that show ?thesis
      by (simp add: Scorer_IsDone_def reaches_DONE_def list_all_iff)
  next
    case DONE
    with that show ?thesis
      by (simp add: Scorer_IsDone_def)
  qed
  have len: "length (beam_states (Scorer_IsDone scorer)) = length (beam_states scorer)"
    by (simp add: Scorer_IsDone_def)
  from each len show ?thesis
    unfolding r by (simp add: later)
qed

theorem BeamSearch_IsDone_all_DONE_witness:
  "state (beam_states (beam_scorer (snd (BeamSearch_IsDone (with_scorer scorer_collaborators)
      (example_scored_beam [example_collected, example_terminated, example_running])))) ! 0) = DONE \<and>
   state (beam_states (beam_scorer (snd (BeamSearch_IsDone (with_scorer scorer_collaborators)
      (example_scored_beam [example_collected, example_terminated, example_running])))) ! 1) = DONE \<and>
   state (beam_states (beam_scorer (snd (BeamSearch_IsDone (with_scorer scorer_collaborators)
      (example_scored_beam [example_collected, example_terminated, example_running])))) ! 2) = ACTIVE \<and>
   \<not> fst (BeamSearch_IsDone (with_scorer scorer_collaborators)
      (example_scored_beam [example_collected, example_terminated, example_running])) \<and>
   fst (BeamSearch_IsDone (with_scorer scorer_collaborators)
      (example_scored_beam [example_collected, example_terminated]))"
proof -
  let ?three = "example_scored_beam [example_collected, example_terminated, example_running]"
  let ?two = "example_scored_beam [example_collected, example_terminated]"
  let ?ext = "with_scorer scorer_collaborators"
  let ?r3 = "beam_states (beam_scorer (snd (BeamSearch_IsDone ?ext ?three)))"
  let ?r2 = "beam_states (beam_scorer (snd (BeamSearch_IsDone ?ext ?two)))"
  note three = BeamSearch_IsDone_all_DONE [where ext = scorer_collaborators and search = ?three]
  note two = BeamSearch_IsDone_all_DONE [where ext = scorer_collaborators and search = ?two]
  have sc3: "beam_states (beam_scorer ?three) = [example_collected, example_terminated, example_running]"
    "scorer_num_beams (beam_scorer ?three) = 2"
    "scorer_sequence_length (beam_scorer ?three) \<noteq> scorer_max_length (beam_scorer ?three)"
    "GetSequenceLength ?three \<noteq> max_length (params ?three)"
    and sc2: "beam_states (beam_scorer ?two) = [example_collected, example_terminated]"
    "scorer_num_beams (beam_scorer ?two) = 2"
    by (simp_all add: example_scored_beam_def Search_Cuda_ctor_def example_params_def
        example_sequences_def BeamSearch_Cuda.defs Search_Cuda.defs GetSequenceLength_def
        Sequences_GetSequenceLength_def)
  note len3' = three [THEN conjunct2, THEN conjunct2, THEN conjunct1]
  note each3 = three [THEN conjunct2, THEN conjunct2, THEN conjunct2, rule_format]
  from len3' have len3: "length ?r3 = 3" by (simp add: sc3(1))
  have s3: "state (?r3 ! 0) = DONE" "state (?r3 ! 1) = DONE" "state (?r3 ! 2) \<noteq> DONE"
    using each3 [of 0, unfolded sc3(1,2)] each3 [of 1, unfolded sc3(1,2)]
      each3 [of 2, unfolded sc3(1,2)] sc3(3)
    by (simp_all add: example_collected_def example_terminated_def example_running_def
        example_hypothesis_def)
  from s3(3) have a: "state (?r3 ! 2) = ACTIVE"
    by (cases "state (?r3 ! 2)") simp_all
  from len3 have "?r3 ! 2 \<in> set ?r3" by simp
  with s3(3) have "\<not> (\<forall>b \<in> set ?r3. state b = DONE)" by blast
  with three sc3(4) have n3: "\<not> fst (BeamSearch_IsDone ?ext ?three)" by blast
  note len2' = two [THEN conjunct2, THEN conjunct2, THEN conjunct1]
  note each2 = two [THEN conjunct2, THEN conjunct2, THEN conjunct2, rule_format]
  from len2' have len2: "length ?r2 = 2" by (simp add: sc2(1))
  have s2: "state (?r2 ! 0) = DONE" "state (?r2 ! 1) = DONE"
    using each2 [of 0, unfolded sc2] each2 [of 1, unfolded sc2]
    by (simp_all add: example_collected_def example_terminated_def example_hypothesis_def)
  have "\<forall>b \<in> set ?r2. state b = DONE"
  proof
    fix b assume "b \<in> set ?r2"
    then obtain i where "i < 2" "b = ?r2 ! i"
      unfolding in_set_conv_nth len2 by blast
    with s2 show "state b = DONE"
      by (cases i) (simp_all add: less_Suc_eq numeral_2_eq_2)
  qed
  with two have "fst (BeamSearch_IsDone ?ext ?two)" by blast
  with s3(1,2) a n3 show ?thesis by blast
qed

end
